theory Spec2Isabelle
  imports Main "HOL-Library.Word" "HOL-Library.Signed_Division"
begin

unbundle bit_operations_syntax

section \<open>Machine types and helpers\<close>

text \<open>
  The emulator's picture processing unit (\<open>src/ppu.cpp\<close>) works on \<open>uint8_t\<close>,
  \<open>uint16_t\<close> and \<open>uint32_t\<close> values, modelled as words of that width, and on
  \<open>int\<close>, modelled as a mathematical integer (signed overflow is undefined in the
  source, so there is no wrap-around to write out); \<open>/\<close> and \<open>%\<close> on \<open>int\<close> truncate
  towards zero and are \<open>sdiv\<close> and \<open>smod\<close>.
\<close>

type_synonym u8 = "8 word"
type_synonym u16 = "16 word"
type_synonym u32 = "32 word"

text \<open>
  Statically sized arrays (\<open>vram[8192]\<close>, \<open>spram[2048]\<close>) are stores from index to byte
  together with their declared size; an access outside the declared size is undefined in
  the source and is the fault \<open>OutOfBounds\<close> in the model. A failed \<open>assert\<close> is the
  fault \<open>AssertFailed\<close>.
\<close>

datatype fault = OutOfBounds | AssertFailed

definition array_read :: "nat \<Rightarrow> (nat \<Rightarrow> 'a) \<Rightarrow> nat \<Rightarrow> fault + 'a" where
  "array_read n a i = (if i < n then Inr (a i) else Inl OutOfBounds)"

definition array_write :: "nat \<Rightarrow> (nat \<Rightarrow> 'a) \<Rightarrow> nat \<Rightarrow> 'a \<Rightarrow> fault + (nat \<Rightarrow> 'a)" where
  "array_write n a i v = (if i < n then Inr (a(i := v)) else Inl OutOfBounds)"

text \<open>
  Modelled from the spec: \<open>get_bit\<close> is declared in \<open>util.hpp\<close>, which is not among the
  sources; the spec reads \<open>get_bit(x, n)\<close> as "bit n of x".
\<close>

definition get_bit :: "'a::len word \<Rightarrow> nat \<Rightarrow> bool" where
  "get_bit x n = bit x n"

section \<open>Frame pump and register port\<close>

record ppu =
  ppu_regs :: "u8 \<Rightarrow> u8"
  vram :: "nat \<Rightarrow> u8"
  spram :: "nat \<Rightarrow> u8"
  ticks :: u32
  render_ready :: bool

definition vram_size :: nat where "vram_size = 8192"
definition spram_size :: nat where "spram_size = 2048"

definition vblank_start :: u32 where "vblank_start = 0"
definition vblank_len :: u32 where "vblank_len = 22036"
definition v_total :: u32 where "v_total = 106392"

text \<open>
  \<open>ppu_tick\<close>: the signal to the render thread is the flag \<open>render_ready\<close>; the
  condition variable and the mutex around it are not modelled.
\<close>

definition ppu_tick :: "ppu \<Rightarrow> ppu" where
  "ppu_tick s =
     (let t = ticks s + 1 in
      if t \<ge> v_total then s\<lparr>ticks := 0\<rparr>
      else if t = vblank_len then s\<lparr>ticks := t, render_ready := True\<rparr>
      else s\<lparr>ticks := t\<rparr>)"

definition ppu_is_vblank :: "ppu \<Rightarrow> bool" where
  "ppu_is_vblank s = (ticks s \<ge> vblank_start \<and> ticks s < vblank_len)"

definition reg_ppu_stat :: u8 where "reg_ppu_stat = 0x01"
definition reg_spram_addr_msb :: u8 where "reg_spram_addr_msb = 0x02"
definition reg_spram_addr_lsb :: u8 where "reg_spram_addr_lsb = 0x03"
definition reg_spram_data :: u8 where "reg_spram_data = 0x04"
definition reg_vram_addr_msb :: u8 where "reg_vram_addr_msb = 0x06"
definition reg_vram_addr_lsb :: u8 where "reg_vram_addr_lsb = 0x05"
definition reg_vram_data :: u8 where "reg_vram_data = 0x07"

text \<open>
  The local \<open>spram_addr\<close> of \<open>ppu_read\<close> and \<open>ppu_write\<close> as they initialise it, and
  likewise \<open>vram_addr\<close>.
\<close>

definition spram_addr :: "ppu \<Rightarrow> u16" where
  "spram_addr s =
     push_bit 8 (ucast (ppu_regs s reg_spram_addr_msb AND 0x07)) OR
     ucast (ppu_regs s reg_spram_addr_lsb)"

definition vram_addr :: "ppu \<Rightarrow> u16" where
  "vram_addr s =
     push_bit 8 (ucast (ppu_regs s reg_vram_addr_msb AND 0x1F)) OR
     ucast (ppu_regs s reg_vram_addr_lsb)"

definition ppu_read :: "u8 \<Rightarrow> ppu \<Rightarrow> fault + u8" where
  "ppu_read address s =
     (if address = reg_spram_data then
        array_read spram_size (spram s) (unat (spram_addr s))
      else if address = reg_vram_data then
        array_read vram_size (vram s) (unat (vram_addr s))
      else if address = reg_ppu_stat then
        Inr (push_bit 7 (of_bool (ppu_is_vblank s)))
      else Inr (ppu_regs s address))"

definition ppu_write :: "u8 \<Rightarrow> u8 \<Rightarrow> ppu \<Rightarrow> fault + ppu" where
  "ppu_write address data s =
     (if address = reg_spram_data then
        (let a = spram_addr s in
         case array_write spram_size (spram s) (unat a) data of
           Inl e \<Rightarrow> Inl e
         | Inr m \<Rightarrow>
             (let a1 = a + 1;
                  a2 = (if (a1 AND 0x07) \<ge> 6 then (a1 AND NOT 0x07) + 8 else a1)
              in Inr (s\<lparr>spram := m,
                        ppu_regs := (ppu_regs s)
                          (reg_spram_addr_msb := ucast (drop_bit 8 a2 AND 0x07),
                           reg_spram_addr_lsb := ucast (a2 AND 0xFF))\<rparr>)))
      else if address = reg_vram_data then
        (let a = vram_addr s in
         case array_write vram_size (vram s) (unat a) data of
           Inl e \<Rightarrow> Inl e
         | Inr m \<Rightarrow>
             (let a1 = a + 1
              in Inr (s\<lparr>vram := m,
                        ppu_regs := (ppu_regs s)
                          (reg_vram_addr_msb := ucast (drop_bit 8 a1 AND 0x1F),
                           reg_vram_addr_lsb := ucast (a1 AND 0xFF))\<rparr>)))
      else Inr (s\<lparr>ppu_regs := (ppu_regs s)(address := data)\<rparr>))"

text \<open>A run of data-port writes, one \<open>ppu_write\<close> per byte, stopping at a fault.\<close>

fun ppu_writes :: "u8 \<Rightarrow> u8 list \<Rightarrow> ppu \<Rightarrow> fault + ppu" where
  "ppu_writes address [] s = Inr s"
| "ppu_writes address (b # bs) s =
     (case ppu_write address b s of
        Inl e \<Rightarrow> Inl e
      | Inr s' \<Rightarrow> ppu_writes address bs s')"

text \<open>
  The CPU's way to look at one VRAM byte through the window: write the high and the low
  address register, then read the data port.
\<close>

definition vram_peek :: "nat \<Rightarrow> ppu \<Rightarrow> fault + u8" where
  "vram_peek a s =
     (case ppu_write reg_vram_addr_msb (of_nat (a div 256)) s of
        Inl e \<Rightarrow> Inl e
      | Inr s1 \<Rightarrow>
          (case ppu_write reg_vram_addr_lsb (of_nat (a mod 256)) s1 of
             Inl e \<Rightarrow> Inl e
           | Inr s2 \<Rightarrow> ppu_read reg_vram_data s2))"

section \<open>Character decoder\<close>

datatype ColourMode = IDX_4 | IDX_16 | IDX_64 | IDX_256 | ARGB1555

text \<open>The \<open>switch (fmt)\<close> of \<open>get_char_data\<close> that sets \<open>bpp\<close>.\<close>

fun bpp_of :: "ColourMode \<Rightarrow> int" where
  "bpp_of ARGB1555 = 16"
| "bpp_of IDX_256 = 8"
| "bpp_of IDX_64 = 6"
| "bpp_of IDX_16 = 4"
| "bpp_of IDX_4 = 2"

text \<open>The value of the local \<open>spacing\<close> of \<open>get_char_data\<close> when \<open>pa\<close> is computed.\<close>

definition char_spacing :: "int \<Rightarrow> int \<Rightarrow> ColourMode \<Rightarrow> bool \<Rightarrow> int" where
  "char_spacing w h fmt bmp =
     (let spacing = (if bmp \<or> fmt = ARGB1555 then 16 * 16 else w * h);
          bpp = bpp_of fmt;
          spacing = (if bpp = 16 then spacing * 8 else spacing * bpp)
      in spacing sdiv 8)"

text \<open>
  \<open>read_mem_physical\<close> is declared in \<open>mmu.hpp\<close>, which is not among the sources: it
  is a parameter. \<open>buf\<close> is the caller's buffer, a store from index to byte.
\<close>

definition get_char_data ::
  "(u32 \<Rightarrow> u8) \<Rightarrow> u16 \<Rightarrow> u16 \<Rightarrow> int \<Rightarrow> int \<Rightarrow> ColourMode \<Rightarrow> bool \<Rightarrow> (nat \<Rightarrow> u8) \<Rightarrow> (nat \<Rightarrow> u8)"
where
  "get_char_data read_mem_physical seg vector w h fmt bmp buf =
     (let spacing = char_spacing w h fmt bmp;
          pa = (word_of_int (push_bit 13 (uint seg) + uint vector * spacing) :: u32);
          len = (w * h * bpp_of fmt) sdiv 8
      in fold (\<lambda>i b. b(i := read_mem_physical (pa + of_nat i))) [0..<nat len] buf)"

text \<open>
  The spacing as the specification words it: \<open>16 * 16\<close> texels for bitmap or ARGB1555,
  \<open>w * h\<close> texels otherwise, scaled by \<open>bpp/8\<close>.
\<close>

definition spec_spacing :: "int \<Rightarrow> int \<Rightarrow> ColourMode \<Rightarrow> bool \<Rightarrow> int" where
  "spec_spacing w h fmt bmp =
     (if bmp \<or> fmt = ARGB1555 then 16 * 16 else w * h) * bpp_of fmt div 8"

section \<open>Blitter\<close>

text \<open>
  The locals of \<open>vt_blit\<close> that live across texels, and the destination layer. \<open>srcptr\<close>
  is the offset from \<open>src\<close>. \<open>argb0\<close> and \<open>argb1\<close> are declared in the loop body
  without an initialiser; where the source assigns neither, the model keeps what the
  variable's storage held before: the value the preceding texel left, and for the first
  texel the initial content handed to \<open>vt_blit\<close>.
\<close>

record blit =
  srcptr :: nat
  src_bit :: nat
  argb0 :: u16
  argb1 :: u16
  dst :: "int \<Rightarrow> u32"

text \<open>The index decoding of the indexed formats: \<open>(raw, srcptr, src_bit)\<close> afterwards.\<close>

definition decode_raw :: "ColourMode \<Rightarrow> (nat \<Rightarrow> u8) \<Rightarrow> nat \<Rightarrow> nat \<Rightarrow> fault + (u8 \<times> nat \<times> nat)" where
  "decode_raw fmt src p b =
     (case fmt of
        IDX_4 \<Rightarrow>
          (let raw = drop_bit b (src p) AND 0x03
           in if b + 2 \<ge> 8 then Inr (raw, p + 1, 0) else Inr (raw, p, b + 2))
      | IDX_16 \<Rightarrow>
          (let raw = drop_bit b (src p) AND 0x0F
           in if b + 4 \<ge> 8 then Inr (raw, p + 1, 0) else Inr (raw, p, b + 4))
      | IDX_64 \<Rightarrow>
          (if b = 0 then Inr (src p AND 0x3F, p, 6)
           else if b = 2 then Inr (drop_bit 2 (src p) AND 0x3F, p + 1, 0)
           else if b = 4 then
             Inr (drop_bit 4 (src p AND 0xF0) OR push_bit 4 (src (p + 1) AND 0x03), p + 1, 2)
           else if b = 6 then
             Inr (drop_bit 6 (src p AND 0xC0) OR push_bit 2 (src (p + 1) AND 0x0F), p + 1, 4)
           else Inl AssertFailed)
      | IDX_256 \<Rightarrow> Inr (src p, p + 1, b)
      | ARGB1555 \<Rightarrow> Inl AssertFailed)"

definition pal_entry :: "(nat \<Rightarrow> u8) \<Rightarrow> u8 \<Rightarrow> u16" where
  "pal_entry pal raw = push_bit 8 (ucast (pal (2 * unat raw + 1))) OR ucast (pal (2 * unat raw))"

text \<open>Lines 49 to 109: the two samples of one texel. A null palette is \<open>None\<close>.\<close>

definition sample_texel ::
  "ColourMode \<Rightarrow> (nat \<Rightarrow> u8) \<Rightarrow> (nat \<Rightarrow> u8) option \<Rightarrow> (nat \<Rightarrow> u8) option \<Rightarrow> blit \<Rightarrow> fault + blit"
where
  "sample_texel fmt src pal0 pal1 st =
     (if fmt = ARGB1555 then
        (let c = push_bit 8 (ucast (src (srcptr st + 1))) OR ucast (src (srcptr st))
         in Inr (st\<lparr>srcptr := srcptr st + 2, argb0 := c, argb1 := c\<rparr>))
      else
        (case decode_raw fmt src (srcptr st) (src_bit st) of
           Inl e \<Rightarrow> Inl e
         | Inr (raw, p, b) \<Rightarrow>
             (if raw = 0 then
                Inr (st\<lparr>srcptr := p, src_bit := b, argb0 := 0x8000, argb1 := 0x8000\<rparr>)
              else
                Inr (st\<lparr>srcptr := p, src_bit := b,
                       argb0 := (case pal0 of None \<Rightarrow> argb0 st | Some pal \<Rightarrow> pal_entry pal raw),
                       argb1 := (case pal1 of None \<Rightarrow> argb1 st | Some pal \<Rightarrow> pal_entry pal raw)\<rparr>))))"

text \<open>Lines 110 to 119: the write of the two samples to the destination cell.\<close>

definition put_texel :: "int \<Rightarrow> int \<Rightarrow> int \<Rightarrow> int \<Rightarrow> int \<Rightarrow> blit \<Rightarrow> blit" where
  "put_texel dst_width dst_height dst_stride dx dy st =
     (if dx \<ge> 0 \<and> dx < dst_width \<and> dy \<ge> 0 \<and> dy < dst_height then
        (let i = dy * dst_stride + dx;
             d = dst st;
             d = (if argb0 st AND 0x8000 = 0
                  then d(i := (d i AND 0xFFFF0000) OR ucast (argb0 st)) else d);
             d = (if argb1 st AND 0x8000 = 0
                  then d(i := (d i AND 0x0000FFFF) OR push_bit 16 (ucast (argb1 st))) else d)
         in st\<lparr>dst := d\<rparr>)
      else st)"

text \<open>One pass of the inner loop body, for the texel \<open>(sx, sy)\<close>.\<close>

definition blit_texel ::
  "ColourMode \<Rightarrow> (nat \<Rightarrow> u8) \<Rightarrow> (nat \<Rightarrow> u8) option \<Rightarrow> (nat \<Rightarrow> u8) option \<Rightarrow>
   int \<Rightarrow> int \<Rightarrow> int \<Rightarrow> int \<Rightarrow> int \<Rightarrow> blit \<Rightarrow> fault + blit"
where
  "blit_texel fmt src pal0 pal1 dst_width dst_height dst_stride dx dy st =
     (case sample_texel fmt src pal0 pal1 st of
        Inl e \<Rightarrow> Inl e
      | Inr st' \<Rightarrow> Inr (put_texel dst_width dst_height dst_stride dx dy st'))"

fun blit_loop ::
  "ColourMode \<Rightarrow> (nat \<Rightarrow> u8) \<Rightarrow> (nat \<Rightarrow> u8) option \<Rightarrow> (nat \<Rightarrow> u8) option \<Rightarrow>
   int \<Rightarrow> int \<Rightarrow> int \<Rightarrow> int \<Rightarrow> int \<Rightarrow> (nat \<times> nat) list \<Rightarrow> blit \<Rightarrow> fault + blit"
where
  "blit_loop fmt src pal0 pal1 dw dh ds dst_x dst_y [] st = Inr st"
| "blit_loop fmt src pal0 pal1 dw dh ds dst_x dst_y ((sy, sx) # ts) st =
     (case blit_texel fmt src pal0 pal1 dw dh ds (dst_x + int sx) (dst_y + int sy) st of
        Inl e \<Rightarrow> Inl e
      | Inr st' \<Rightarrow> blit_loop fmt src pal0 pal1 dw dh ds dst_x dst_y ts st')"

text \<open>
  \<open>vt_blit\<close>: the texels in the order of the two loops, \<open>sy\<close> outside and \<open>sx\<close> inside.
  \<open>stale0\<close> and \<open>stale1\<close> are the content of the storage of \<open>argb0\<close> and \<open>argb1\<close> when
  the function is entered.
\<close>

definition vt_blit ::
  "int \<Rightarrow> int \<Rightarrow> (nat \<Rightarrow> u8) \<Rightarrow> int \<Rightarrow> int \<Rightarrow> int \<Rightarrow> int \<Rightarrow> int \<Rightarrow> (int \<Rightarrow> u32) \<Rightarrow> ColourMode \<Rightarrow>
   (nat \<Rightarrow> u8) option \<Rightarrow> (nat \<Rightarrow> u8) option \<Rightarrow> u16 \<Rightarrow> u16 \<Rightarrow> fault + (int \<Rightarrow> u32)"
where
  "vt_blit src_width src_height src dst_width dst_height dst_stride dst_x dst_y d fmt
           pal0 pal1 stale0 stale1 =
     (case blit_loop fmt src pal0 pal1 dst_width dst_height dst_stride dst_x dst_y
             (List.product [0..<nat src_height] [0..<nat src_width])
             \<lparr>srcptr = 0, src_bit = 0, argb0 = stale0, argb1 = stale1, dst = d\<rparr> of
        Inl e \<Rightarrow> Inl e
      | Inr st \<Rightarrow> Inr (dst st))"

section \<open>Tile map addressing\<close>

datatype BkgScrollMode = SCROLL_FIX | SCROLL_H | SCROLL_V | SCROLL_4P

text \<open>The parameter \<open>size\<close> of the source is \<open>tile_size\<close> here.\<close>

definition get_tile_addr ::
  "int \<Rightarrow> int \<Rightarrow> bool \<Rightarrow> bool \<Rightarrow> int \<Rightarrow> bool \<Rightarrow> int \<Rightarrow> BkgScrollMode \<Rightarrow> fault + (u16 \<times> bool)"
where
  "get_tile_addr tx ty y8 x8 tile_size bmp layer scrl =
     (if tile_size = 8 then
        (let offset = (word_of_int (((tx smod 32) + 32 * (ty smod 32)) * 2) :: u16)
         in case scrl of
              SCROLL_FIX \<Rightarrow>
                Inr ((if \<not> y8 \<and> \<not> x8 then 0x000 else 0x800) + offset, tx < 32 \<and> ty < 32)
            | SCROLL_H \<Rightarrow>
                Inr ((if (tx > 32) \<noteq> x8 then 0x800 else 0x000) + offset, ty < 32)
            | SCROLL_V \<Rightarrow>
                Inr ((if (ty > 32) \<noteq> y8 then 0x800 else 0x000) + offset, tx < 32)
            | SCROLL_4P \<Rightarrow> Inl AssertFailed)
      else if tile_size = 16 then
        (let offset = (word_of_int (((tx smod 16) + 16 * (ty smod 16)) * 2) :: u16)
         in case scrl of
              SCROLL_FIX \<Rightarrow>
                Inr (word_of_int (push_bit 11 layer OR push_bit 10 (of_bool y8) OR
                                  push_bit 9 (of_bool x8)) + offset,
                     tx < 16 \<and> ty < 16)
            | SCROLL_H \<Rightarrow>
                Inr (((if (tx > 16) \<noteq> x8 then 0x200 else 0x000) OR
                      word_of_int (push_bit 11 layer)) + offset, ty < 16)
            | SCROLL_V \<Rightarrow>
                Inr (((if (ty > 16) \<noteq> y8 then 0x200 else 0x000) OR
                      word_of_int (push_bit 11 layer)) + offset, tx < 16)
            | SCROLL_4P \<Rightarrow>
                Inr (((if (tx > 16) \<noteq> x8 then 0x200 else 0x000) OR
                      (if (ty > 16) \<noteq> y8 then 0x400 else 0x000) OR
                      word_of_int (push_bit 11 layer)) + offset, True))
      else if bmp then
        (if layer \<noteq> 0 then Inl AssertFailed
         else
           (let offset = (word_of_int ((ty smod 256) * 2) :: u16)
            in case scrl of
                 SCROLL_FIX \<Rightarrow>
                   Inr (word_of_int (push_bit 11 layer OR push_bit 10 (of_bool y8) OR
                                     push_bit 9 (of_bool x8)) + offset,
                        tx < 1 \<and> ty < 256)
               | SCROLL_H \<Rightarrow>
                   Inr ((if (tx > 1) \<noteq> x8 then 0x200 else 0x000) + offset, ty < 256)
               | SCROLL_V \<Rightarrow>
                   Inr ((if (ty > 256) \<noteq> y8 then 0x200 else 0x000) + offset, tx < 1)
               | SCROLL_4P \<Rightarrow>
                   Inr (((if (tx > 1) \<noteq> x8 then 0x200 else 0x000) OR
                         (if (ty > 256) \<noteq> y8 then 0x400 else 0x000)) + offset, True)))
      else Inl AssertFailed)"

text \<open>
  The tables of the specification's section 4.4, in its words: the address as a number
  (base plus offset) and the mapped flag; \<open>None\<close> where the table has no entry.
\<close>

definition spec_tile8 :: "BkgScrollMode \<Rightarrow> int \<Rightarrow> int \<Rightarrow> bool \<Rightarrow> bool \<Rightarrow> (int \<times> bool) option" where
  "spec_tile8 scrl tx ty x8 y8 =
     (let offset = ((tx mod 32) + 32 * (ty mod 32)) * 2
      in case scrl of
           SCROLL_FIX \<Rightarrow> Some ((if \<not> y8 \<and> \<not> x8 then 0x000 else 0x800) + offset, tx < 32 \<and> ty < 32)
         | SCROLL_H \<Rightarrow> Some ((if (tx > 32) \<noteq> x8 then 0x800 else 0x000) + offset, ty < 32)
         | SCROLL_V \<Rightarrow> Some ((if (ty > 32) \<noteq> y8 then 0x800 else 0x000) + offset, tx < 32)
         | SCROLL_4P \<Rightarrow> None)"

definition spec_tile16 :: "BkgScrollMode \<Rightarrow> int \<Rightarrow> int \<Rightarrow> int \<Rightarrow> bool \<Rightarrow> bool \<Rightarrow> int \<times> bool" where
  "spec_tile16 scrl layer tx ty x8 y8 =
     (let offset = ((tx mod 16) + 16 * (ty mod 16)) * 2;
          px = (if (tx > 16) \<noteq> x8 then 0x200 else 0);
          py = (if (ty > 16) \<noteq> y8 then 0x200 else 0);
          py4 = (if (ty > 16) \<noteq> y8 then 0x400 else 0)
      in case scrl of
           SCROLL_FIX \<Rightarrow>
             ((push_bit 11 layer OR push_bit 10 (of_bool y8) OR push_bit 9 (of_bool x8)) + offset,
              tx < 16 \<and> ty < 16)
         | SCROLL_H \<Rightarrow> ((push_bit 11 layer OR px) + offset, ty < 16)
         | SCROLL_V \<Rightarrow> ((push_bit 11 layer OR py) + offset, tx < 16)
         | SCROLL_4P \<Rightarrow> ((push_bit 11 layer OR px OR py4) + offset, True))"

section \<open>Compositor\<close>

definition reg_pal_sel :: u8 where "reg_pal_sel = 0x0E"

definition blend_argb1555 :: "u16 \<Rightarrow> u16 \<Rightarrow> u16" where
  "blend_argb1555 a b =
     (if a AND 0x8000 \<noteq> 0 then b
      else if b AND 0x8000 \<noteq> 0 then a
      else
        (let x = 0;
             x = x OR ((((a AND 0x1F) + (b AND 0x1F)) div 2) AND 0x1F);
             x = x OR push_bit 5
                   ((((drop_bit 5 a AND 0x1F) + (drop_bit 5 b AND 0x1)) div 2) AND 0x1F);
             x = x OR push_bit 10
                   ((((drop_bit 11 a AND 0x1F) + (drop_bit 11 b AND 0x1F)) div 2) AND 0x1F)
         in x))"

definition c5_to_8 :: "u8 \<Rightarrow> u8" where
  "c5_to_8 x = (let lsb = get_bit x 0 in push_bit 3 x OR (if lsb then 0x7 else 0x0))"

definition argb1555_to_rgb8888 :: "u16 \<Rightarrow> u32" where
  "argb1555_to_rgb8888 x =
     (let r = (ucast (x AND 0x1F) :: u8);
          g = (ucast (drop_bit 5 x AND 0x1F) :: u8);
          b = (ucast (drop_bit 10 x AND 0x1F) :: u8);
          a = get_bit x 15
      in if a then 0xFF000000
         else 0xFF000000 OR push_bit 16 (ucast (c5_to_8 r)) OR push_bit 8 (ucast (c5_to_8 g)) OR
              ucast (c5_to_8 b))"

text \<open>
  The render globals \<open>merge_layers\<close> works on. A layer and the output buffer are stores
  from index to cell.
\<close>

record gfx =
  ppu_regs_shadow :: "u8 \<Rightarrow> u8"
  layers :: "nat \<Rightarrow> int \<Rightarrow> u32"
  layer_width :: int
  layer_height :: int
  obuf :: "int \<Rightarrow> u32"
  out_width :: int
  out_height :: int

text \<open>The loop \<open>for (int l = 3; l >= 0; l--)\<close> at the layer index \<open>i\<close>: \<open>(pal0, pal1)\<close>.\<close>

definition scan_layers :: "(nat \<Rightarrow> int \<Rightarrow> u32) \<Rightarrow> int \<Rightarrow> u16 \<times> u16" where
  "scan_layers ls i =
     fold (\<lambda>l (pal0, pal1).
             (let raw = ls l i
              in (if raw AND 0x8000 = 0 then ucast (raw AND 0xFFFF) else pal0,
                  if raw AND 0x80000000 = 0 then ucast (drop_bit 16 raw AND 0xFFFF) else pal1)))
          [3, 2, 1, 0] (0x8000, 0x8000)"

text \<open>Lines 475 to 484: the colour \<open>res\<close> of one pixel.\<close>

definition merge_res :: "bool \<Rightarrow> bool \<Rightarrow> bool \<Rightarrow> u16 \<Rightarrow> u16 \<Rightarrow> u16" where
  "merge_res blend_pal output_pal0 output_pal1 pal0 pal1 =
     (let res = 0x8000;
          res = (if blend_pal \<and> output_pal0 \<and> output_pal1 then blend_argb1555 pal0 pal1 else res);
          res = (if output_pal0 \<and> pal0 AND 0x8000 = 0 then pal0 else res);
          res = (if output_pal1 \<and> pal1 AND 0x8000 = 0 then pal1 else res)
      in res)"

definition merge_pixel :: "bool \<Rightarrow> gfx \<Rightarrow> int \<Rightarrow> int \<Rightarrow> u16" where
  "merge_pixel lcd g y x =
     (let output_pal0 = get_bit (ppu_regs_shadow g reg_pal_sel) (if lcd then 0 else 1);
          output_pal1 = get_bit (ppu_regs_shadow g reg_pal_sel) (if lcd then 2 else 3);
          blend_pal = get_bit (ppu_regs_shadow g reg_pal_sel) (if lcd then 5 else 4);
          (pal0, pal1) = scan_layers (layers g) (y * layer_width g + x)
      in merge_res blend_pal output_pal0 output_pal1 pal0 pal1)"

definition merge_layers :: "bool \<Rightarrow> gfx \<Rightarrow> gfx" where
  "merge_layers lcd g =
     g\<lparr>obuf :=
         fold (\<lambda>y. fold (\<lambda>x ob. ob(y * out_width g + x := argb1555_to_rgb8888 (merge_pixel lcd g y x)))
                       (map int [0..<nat (out_width g)]))
              (map int [0..<nat (out_height g)]) (obuf g)\<rparr>"

text \<open>
  The compositor's rule in the specification's words: per bank, the solid sample of the
  lowest-numbered layer that has one.
\<close>

definition top_solid0 :: "(nat \<Rightarrow> int \<Rightarrow> u32) \<Rightarrow> int \<Rightarrow> u16" where
  "top_solid0 ls i =
     (case find (\<lambda>l. \<not> bit (ls l i) 15) [0, 1, 2, 3] of
        None \<Rightarrow> 0x8000
      | Some l \<Rightarrow> ucast (ls l i))"

definition top_solid1 :: "(nat \<Rightarrow> int \<Rightarrow> u32) \<Rightarrow> int \<Rightarrow> u16" where
  "top_solid1 ls i =
     (case find (\<lambda>l. \<not> bit (ls l i) 31) [0, 1, 2, 3] of
        None \<Rightarrow> 0x8000
      | Some l \<Rightarrow> ucast (drop_bit 16 (ls l i)))"

definition solid :: "u16 \<Rightarrow> bool" where
  "solid c = (\<not> bit c 15)"

text \<open>
  The next SPRAM address in the specification's words: one more, and rounded up to the
  next multiple of 8 when the low three bits of that are 6 or 7.
\<close>

definition spec_spram_next :: "nat \<Rightarrow> nat" where
  "spec_spram_next a = (let a1 = a + 1 in if a1 mod 8 \<ge> 6 then (a1 div 8 + 1) * 8 else a1)"

section \<open>Specification-side definitions and example inputs\<close>

text \<open>
  The blend in the specification's words: either operand transparent gives the other,
  otherwise each 5-bit channel is the floor of the mean of the operands' channels and bit
  15 is clear. \<open>chan k c\<close> is the 5-bit channel of \<open>c\<close> that starts at bit \<open>k\<close>.
\<close>

definition chan :: "nat \<Rightarrow> u16 \<Rightarrow> nat" where
  "chan k c = unat (take_bit 5 (drop_bit k c))"

definition spec_blend :: "u16 \<Rightarrow> u16 \<Rightarrow> u16" where
  "spec_blend a b =
     (if bit a 15 then b
      else if bit b 15 then a
      else of_nat ((chan 0 a + chan 0 b) div 2) OR
           push_bit 5 (of_nat ((chan 5 a + chan 5 b) div 2)) OR
           push_bit 10 (of_nat ((chan 10 a + chan 10 b) div 2)))"

text \<open>
  Example inputs: a memory that holds 1 at one address and 0 elsewhere, and a zeroed
  buffer.
\<close>

definition mem_mark :: "u32 \<Rightarrow> u32 \<Rightarrow> u8" where
  "mem_mark k a = (if a = k then 1 else 0)"

definition zero_buf :: "nat \<Rightarrow> u8" where
  "zero_buf i = 0"

section \<open>Helper lemmas\<close>

subsection \<open>Word arithmetic of the address registers\<close>

lemma and_07: "(x :: 'a::len word) AND 0x07 = take_bit 3 x"
  using take_bit_eq_mask[of 3 x] by (simp add: mask_eq_exp_minus_1)

lemma and_1F: "(x :: 'a::len word) AND 0x1F = take_bit 5 x"
  using take_bit_eq_mask[of 5 x] by (simp add: mask_eq_exp_minus_1)

lemma and_FF: "(x :: 'a::len word) AND 0xFF = take_bit 8 x"
  using take_bit_eq_mask[of 8 x] by (simp add: mask_eq_exp_minus_1)

lemma unat_hi_lo:
  fixes h l :: u8
  assumes "k \<le> 8"
  shows "unat (push_bit 8 (ucast (take_bit k h)) OR ucast l :: u16) = 256 * (unat h mod 2 ^ k) + unat l"
proof -
  have "push_bit 8 (ucast (take_bit k h)) OR (ucast l :: u16) = push_bit 8 (ucast (take_bit k h)) + ucast l"
    by (rule disjunctive_add[symmetric]) (auto simp: bit_simps dest: bit_imp_le_length)
  moreover have "unat (take_bit k h) < 256" "unat l < 256"
    using unsigned_less[of "take_bit k h"] unsigned_less[of l] by simp_all
  then have "unat (push_bit 8 (ucast (take_bit k h)) + ucast l :: u16) = 256 * unat (take_bit k h) + unat l"
    by (simp add: unat_word_ariths unsigned_push_bit_eq unsigned_ucast_eq push_bit_eq_mult unsigned_take_bit_eq take_bit_eq_mod)
  moreover have "unat (take_bit k h) = unat h mod 2 ^ k"
    unfolding unsigned_take_bit_eq by (simp add: take_bit_eq_mod)
  ultimately show ?thesis by simp
qed

lemma unat_vram_addr:
  "unat (vram_addr s) = 256 * (unat (ppu_regs s reg_vram_addr_msb) mod 32) + unat (ppu_regs s reg_vram_addr_lsb)"
  unfolding vram_addr_def and_1F using unat_hi_lo[of 5] by simp

lemma unat_spram_addr:
  "unat (spram_addr s) = 256 * (unat (ppu_regs s reg_spram_addr_msb) mod 8) + unat (ppu_regs s reg_spram_addr_lsb)"
  unfolding spram_addr_def and_07 using unat_hi_lo[of 3] by simp

lemma unat_u8_less: "unat (x :: u8) < 256"
  using unsigned_less[of x] by simp

lemma vram_addr_less: "unat (vram_addr s) < 8192"
proof -
  have "unat (ppu_regs s reg_vram_addr_msb) mod 32 \<le> 31" by simp
  moreover have "unat (ppu_regs s reg_vram_addr_lsb) < 256" by (rule unat_u8_less)
  ultimately show ?thesis unfolding unat_vram_addr by linarith
qed

lemma spram_addr_less: "unat (spram_addr s) < 2048"
proof -
  have "unat (ppu_regs s reg_spram_addr_msb) mod 8 \<le> 7" by simp
  moreover have "unat (ppu_regs s reg_spram_addr_lsb) < 256" by (rule unat_u8_less)
  ultimately show ?thesis unfolding unat_spram_addr by linarith
qed

lemma unat_hi_byte:
  fixes a :: u16
  shows "unat (ucast (take_bit k (drop_bit 8 a)) :: u8) = unat a div 256 mod 2 ^ k"
proof -
  have a: "unat a < 65536" using unsigned_less[of a] by simp
  then have "unat a div 256 < 256" by simp
  then have "unat a div 256 mod 2 ^ k < 256" using mod_less_eq_dividend[of "unat a div 256" "2 ^ k"] by linarith
  moreover have "unat (ucast (take_bit k (drop_bit 8 a)) :: u8) = take_bit 8 (take_bit k (drop_bit 8 (unat a)))"
    using a unfolding unsigned_ucast_eq unsigned_take_bit_eq unsigned_drop_bit_eq
    by (simp add: take_bit_nat_eq_self min.commute)
  ultimately show ?thesis
    by (simp add: take_bit_eq_mod drop_bit_eq_div)
qed

lemma unat_lo_byte:
  fixes a :: u16
  shows "unat (ucast (take_bit 8 a) :: u8) = unat a mod 256"
proof -
  have "unat (ucast (take_bit 8 a) :: u8) = take_bit 8 (take_bit 8 (unat a))"
    by (simp only: unsigned_ucast_eq unsigned_take_bit_eq) simp
  then show ?thesis
    by (simp add: take_bit_eq_mod)
qed

subsection \<open>The VRAM window\<close>

lemmas reg_defs = reg_ppu_stat_def reg_spram_addr_msb_def reg_spram_addr_lsb_def
  reg_spram_data_def reg_vram_addr_msb_def reg_vram_addr_lsb_def reg_vram_data_def

lemma ppu_write_vram:
  "ppu_write reg_vram_data d s =
     Inr (s\<lparr>vram := (vram s)(unat (vram_addr s) := d),
            ppu_regs := (ppu_regs s)
              (reg_vram_addr_msb := ucast (take_bit 5 (drop_bit 8 (vram_addr s + 1))),
               reg_vram_addr_lsb := ucast (take_bit 8 (vram_addr s + 1)))\<rparr>)"
  using vram_addr_less[of s]
  by (simp add: ppu_write_def array_write_def vram_size_def reg_defs Let_def and_1F and_FF)

lemma unat_vram_addr_succ: "unat (vram_addr s + 1) = unat (vram_addr s) + 1"
  using vram_addr_less[of s] by (simp add: unat_word_ariths)

lemma hi_lo_mod:
  fixes n :: nat
  shows "256 * (n div 256 mod 32) + n mod 256 = n mod 8192"
  using mod_mult2_eq[of n 256 32] by simp

lemma vram_addr_after_write:
  assumes "ppu_write reg_vram_data d s = Inr s'"
  shows "unat (vram_addr s') = (unat (vram_addr s) + 1) mod 8192"
proof -
  have s': "s' = s\<lparr>vram := (vram s)(unat (vram_addr s) := d),
            ppu_regs := (ppu_regs s)
              (reg_vram_addr_msb := ucast (take_bit 5 (drop_bit 8 (vram_addr s + 1))),
               reg_vram_addr_lsb := ucast (take_bit 8 (vram_addr s + 1)))\<rparr>"
    using assms by (simp add: ppu_write_vram)
  have "unat (vram_addr s') = 256 * (unat (vram_addr s + 1) div 256 mod 2 ^ 5 mod 32) + unat (vram_addr s + 1) mod 256"
    unfolding unat_vram_addr s' by (simp add: reg_defs unat_hi_byte unat_lo_byte)
  then show ?thesis
    by (simp add: unat_vram_addr_succ hi_lo_mod)
qed

lemma vram_write_fields:
  assumes "ppu_write reg_vram_data d s = Inr s'"
  shows "vram s' = (vram s)(unat (vram_addr s) := d)"
    and "spram s' = spram s"
    and "ticks s' = ticks s"
  using assms by (auto simp add: ppu_write_vram)

lemma ppu_write_vram_ex: "\<exists>s'. ppu_write reg_vram_data d s = Inr s'"
  by (simp add: ppu_write_vram)

lemma ppu_writes_append:
  "ppu_writes a (xs @ ys) s =
     (case ppu_writes a xs s of Inl e \<Rightarrow> Inl e | Inr t \<Rightarrow> ppu_writes a ys t)"
  by (induction xs arbitrary: s) (auto split: sum.splits)

lemma ppu_writes_vram:
  "\<exists>s'. ppu_writes reg_vram_data bs s = Inr s' \<and>
        unat (vram_addr s') = (unat (vram_addr s) + length bs) mod 8192 \<and>
        spram s' = spram s \<and> ticks s' = ticks s \<and>
        (\<forall>k. (\<forall>i<length bs. (unat (vram_addr s) + i) mod 8192 \<noteq> k) \<longrightarrow> vram s' k = vram s k)"
proof (induction bs arbitrary: s)
  case Nil
  show ?case using vram_addr_less[of s] by simp
next
  case (Cons b bs)
  obtain s1 where s1: "ppu_write reg_vram_data b s = Inr s1"
    using ppu_write_vram_ex by blast
  let ?A = "unat (vram_addr s)"
  have a1: "unat (vram_addr s1) = (?A + 1) mod 8192"
    by (rule vram_addr_after_write[OF s1])
  from Cons.IH[of s1] obtain s' where s':
    "ppu_writes reg_vram_data bs s1 = Inr s'"
    "unat (vram_addr s') = (unat (vram_addr s1) + length bs) mod 8192"
    "spram s' = spram s1" "ticks s' = ticks s1"
    "\<And>k. (\<forall>i<length bs. (unat (vram_addr s1) + i) mod 8192 \<noteq> k) \<Longrightarrow> vram s' k = vram s1 k"
    by blast
  have run: "ppu_writes reg_vram_data (b # bs) s = Inr s'"
    using s1 s'(1) by simp
  have addr: "unat (vram_addr s') = (?A + length (b # bs)) mod 8192"
    unfolding s'(2) a1 by (simp add: mod_add_left_eq)
  have frame: "vram s' k = vram s k"
    if k: "\<forall>i<length (b # bs). (?A + i) mod 8192 \<noteq> k" for k
  proof -
    have "\<forall>i<length bs. (unat (vram_addr s1) + i) mod 8192 \<noteq> k"
    proof (intro allI impI)
      fix i assume "i < length bs"
      then have "(?A + Suc i) mod 8192 \<noteq> k" using k by auto
      then show "(unat (vram_addr s1) + i) mod 8192 \<noteq> k"
        unfolding a1 by (simp add: mod_add_left_eq)
    qed
    then have "vram s' k = vram s1 k" by (rule s'(5))
    moreover have "?A \<noteq> k" using k[rule_format, of 0] vram_addr_less[of s] by simp
    ultimately show ?thesis using vram_write_fields(1)[OF s1] by simp
  qed
  show ?case
    using run addr frame s'(3,4) vram_write_fields(2,3)[OF s1] by simp
qed

lemma no_wrap_hit:
  fixes x j :: nat
  assumes "j < 8191"
  shows "(x + 1 + j) mod 8192 \<noteq> x mod 8192"
proof
  assume "(x + 1 + j) mod 8192 = x mod 8192"
  then have "8192 dvd (x + 1 + j) - x"
    using mod_eq_dvd_iff_nat[of x "x + 1 + j" 8192] by simp
  then have "(8192::nat) dvd 1 + j" by simp
  moreover have "\<not> (8192::nat) dvd 1 + j"
    by (rule nat_dvd_not_less) (use assms in simp_all)
  ultimately show False by simp
qed

lemma split_hi_lo:
  fixes q l q' l' :: nat
  assumes "256 * q + l = 256 * q' + l'" "l < 256" "l' < 256"
  shows "q = q'" "l = l'"
proof -
  have "(256 * q + l) div 256 = q" "(256 * q' + l') div 256 = q'"
    using assms(2,3) by simp_all
  then show "q = q'" using assms(1) by simp
  then show "l = l'" using assms(1) by simp
qed

lemma ppu_read_vram: "ppu_read reg_vram_data s = Inr (vram s (unat (vram_addr s)))"
  using vram_addr_less[of s] by (simp add: ppu_read_def array_read_def vram_size_def reg_defs)

lemma vram_peek_eq:
  assumes "a < 8192"
  shows "vram_peek a s = Inr (vram s a)"
proof -
  let ?s2 = "s\<lparr>ppu_regs := (ppu_regs s)(reg_vram_addr_msb := of_nat (a div 256), reg_vram_addr_lsb := of_nat (a mod 256))\<rparr>"
  have peek: "vram_peek a s = ppu_read reg_vram_data ?s2"
    by (simp add: vram_peek_def ppu_write_def reg_defs)
  have "a div 256 < 32" using assms by simp
  then have hi: "unat (of_nat (a div 256) :: u8) mod 32 = a div 256"
    by (simp add: unat_of_nat)
  have lo: "unat (of_nat (a mod 256) :: u8) = a mod 256"
    by (simp add: unat_of_nat)
  have "unat (vram_addr ?s2) = 256 * (a div 256) + a mod 256"
    unfolding unat_vram_addr using hi lo by (simp add: reg_defs)
  then have "unat (vram_addr ?s2) = a" by simp
  then show ?thesis unfolding peek ppu_read_vram by simp
qed

lemma vram_regs_of_addr:
  assumes "unat (vram_addr s) = n mod 8192"
  shows "unat (ppu_regs s 0x05) = n mod 256"
    and "unat (ppu_regs s 0x06 AND 0x1F) = n div 256 mod 32"
proof -
  have "256 * (unat (ppu_regs s 0x06) mod 32) + unat (ppu_regs s 0x05)
        = 256 * (n div 256 mod 32) + n mod 256"
    using assms unfolding unat_vram_addr hi_lo_mod by (simp add: reg_defs)
  moreover have "unat (ppu_regs s 0x05) < 256" by (rule unat_u8_less)
  moreover have "n mod 256 < 256" by simp
  ultimately have "unat (ppu_regs s 0x06) mod 32 = n div 256 mod 32"
    and lo: "unat (ppu_regs s 0x05) = n mod 256"
    by (rule split_hi_lo)+
  then show "unat (ppu_regs s 0x06 AND 0x1F) = n div 256 mod 32"
    unfolding and_1F unsigned_take_bit_eq by (simp add: take_bit_eq_mod)
  show "unat (ppu_regs s 0x05) = n mod 256" by (rule lo)
qed

lemma vram_write_nth:
  assumes i: "i < length bs" and run: "ppu_writes reg_vram_data bs s = Inr s'"
  shows "\<exists>si. ppu_writes reg_vram_data (take (Suc i) bs) s = Inr si \<and>
              vram si ((unat (vram_addr s) + i) mod 8192) = bs ! i \<and>
              (length bs \<le> i + 8192 \<longrightarrow>
                 vram s' ((unat (vram_addr s) + i) mod 8192) = bs ! i)"
proof -
  let ?A = "unat (vram_addr s)"
  let ?k = "(?A + i) mod 8192"
  obtain t where t: "ppu_writes reg_vram_data (take i bs) s = Inr t"
    and at: "unat (vram_addr t) = (?A + length (take i bs)) mod 8192"
    using ppu_writes_vram[of "take i bs" s] by blast
  have at': "unat (vram_addr t) = ?k" using at i by simp
  obtain si where si: "ppu_write reg_vram_data (bs ! i) t = Inr si"
    using ppu_write_vram_ex by blast
  have v: "vram si ?k = bs ! i"
    using vram_write_fields(1)[OF si] at' by simp
  have asi: "unat (vram_addr si) = (?A + i + 1) mod 8192"
    using vram_addr_after_write[OF si] at' by (simp add: mod_Suc_eq)
  have pre: "ppu_writes reg_vram_data (take (Suc i) bs) s = Inr si"
    using i t si by (simp add: take_Suc_conv_app_nth ppu_writes_append)
  have "bs = take (Suc i) bs @ drop (Suc i) bs" by simp
  then have "ppu_writes reg_vram_data bs s = ppu_writes reg_vram_data (drop (Suc i) bs) si"
    using pre ppu_writes_append[of reg_vram_data "take (Suc i) bs" "drop (Suc i) bs" s] by simp
  then have rest: "ppu_writes reg_vram_data (drop (Suc i) bs) si = Inr s'"
    using run by simp
  have keep: "vram s' ?k = bs ! i" if n: "length bs \<le> i + 8192"
  proof -
    have "\<forall>j<length (drop (Suc i) bs). (unat (vram_addr si) + j) mod 8192 \<noteq> ?k"
    proof (intro allI impI)
      fix j assume "j < length (drop (Suc i) bs)"
      then have "j < 8191" using n by simp
      then have "(?A + i + 1 + j) mod 8192 \<noteq> ?k" by (rule no_wrap_hit)
      then show "(unat (vram_addr si) + j) mod 8192 \<noteq> ?k"
        unfolding asi by (simp add: mod_add_left_eq)
    qed
    then have "vram s' ?k = vram si ?k"
      using ppu_writes_vram[of "drop (Suc i) bs" si] rest by auto
    then show ?thesis using v by simp
  qed
  show ?thesis using pre v keep by blast
qed

subsection \<open>The SPRAM window\<close>

lemma and_not_07: "(w :: u16) AND - 8 = push_bit 3 (drop_bit 3 w)"
proof -
  have "w AND NOT (mask 3) = push_bit 3 (drop_bit 3 w)"
    by (rule bit_eqI) (auto simp: bit_simps)
  then show ?thesis by (simp add: mask_eq_exp_minus_1)
qed

lemma unat_and_not_07:
  fixes w :: u16
  shows "unat (w AND - 8) = unat w div 8 * 8"
proof -
  have w: "unat w < 65536" using unsigned_less[of w] by simp
  then have "unat w div 8 * 8 < 65536" by simp
  moreover have "unat (push_bit 3 (drop_bit 3 w)) = take_bit 16 (push_bit 3 (drop_bit 3 (unat w)))"
    using w unfolding unsigned_push_bit_eq unsigned_drop_bit_eq
    by (simp add: take_bit_nat_eq_self)
  ultimately show ?thesis
    unfolding and_not_07 by (simp add: take_bit_nat_eq_self push_bit_eq_mult drop_bit_eq_div)
qed

lemma unat_and_07:
  fixes w :: u16
  shows "unat (w AND 0x07) = unat w mod 8"
  unfolding and_07 unsigned_take_bit_eq by (simp add: take_bit_eq_mod)

lemma spram_next_word:
  fixes a :: u16
  assumes "unat a < 2048"
  shows "unat (if (a + 1) AND 0x07 \<ge> 6 then ((a + 1) AND NOT 0x07) + 8 else a + 1)
         = spec_spram_next (unat a)"
proof -
  have a1: "unat (a + 1) = unat a + 1"
    using assms by (simp add: unat_word_ariths)
  have c: "((a + 1) AND 0x07 \<ge> 6) = ((unat a + 1) mod 8 \<ge> 6)"
    by (simp add: word_le_nat_alt unat_and_07 a1)
  have "unat (a + 1) div 8 * 8 \<le> 2048" using a1 assms by simp
  then have r: "unat (((a + 1) AND NOT 0x07) + 8) = (unat a + 1) div 8 * 8 + 8"
    using a1 by (simp add: unat_word_ariths unat_and_not_07)
  show ?thesis
    unfolding spec_spram_next_def Let_def c using r a1 by simp
qed

lemma hi_lo_mod_2048:
  fixes n :: nat
  shows "256 * (n div 256 mod 8) + n mod 256 = n mod 2048"
  using mod_mult2_eq[of n 256 8] by simp

lemma ppu_write_spram:
  "ppu_write reg_spram_data d s =
     (let a2 = (if (spram_addr s + 1) AND 0x07 \<ge> 6
                then ((spram_addr s + 1) AND NOT 0x07) + 8 else spram_addr s + 1)
      in Inr (s\<lparr>spram := (spram s)(unat (spram_addr s) := d),
                ppu_regs := (ppu_regs s)
                  (reg_spram_addr_msb := ucast (take_bit 3 (drop_bit 8 a2)),
                   reg_spram_addr_lsb := ucast (take_bit 8 a2))\<rparr>))"
  using spram_addr_less[of s]
  by (simp add: ppu_write_def array_write_def spram_size_def reg_defs Let_def and_07 and_FF)

lemma spram_write_effect:
  assumes "ppu_write reg_spram_data d s = Inr s'"
  shows "spram s' = (spram s)(unat (spram_addr s) := d)"
    and "vram s' = vram s"
    and "unat (ppu_regs s' reg_spram_addr_msb) = spec_spram_next (unat (spram_addr s)) div 256 mod 8"
    and "unat (ppu_regs s' reg_spram_addr_lsb) = spec_spram_next (unat (spram_addr s)) mod 256"
    and "unat (spram_addr s') = spec_spram_next (unat (spram_addr s)) mod 2048"
proof -
  define a2 where "a2 = (if (spram_addr s + 1) AND 0x07 \<ge> 6
                then ((spram_addr s + 1) AND NOT 0x07) + 8 else spram_addr s + 1)"
  have n: "unat a2 = spec_spram_next (unat (spram_addr s))"
    unfolding a2_def by (rule spram_next_word) (rule spram_addr_less)
  have s': "s' = s\<lparr>spram := (spram s)(unat (spram_addr s) := d),
                ppu_regs := (ppu_regs s)
                  (reg_spram_addr_msb := ucast (take_bit 3 (drop_bit 8 a2)),
                   reg_spram_addr_lsb := ucast (take_bit 8 a2))\<rparr>"
    using assms unfolding ppu_write_spram a2_def by (simp add: Let_def)
  show "spram s' = (spram s)(unat (spram_addr s) := d)" "vram s' = vram s"
    unfolding s' by simp_all
  show hi: "unat (ppu_regs s' reg_spram_addr_msb) = spec_spram_next (unat (spram_addr s)) div 256 mod 8"
    unfolding s' using n by (simp add: reg_defs unat_hi_byte[of 3 a2, simplified])
  show lo: "unat (ppu_regs s' reg_spram_addr_lsb) = spec_spram_next (unat (spram_addr s)) mod 256"
    unfolding s' using n by (simp add: reg_defs unat_lo_byte)
  show "unat (spram_addr s') = spec_spram_next (unat (spram_addr s)) mod 2048"
    unfolding unat_spram_addr hi lo by (simp add: hi_lo_mod_2048)
qed

lemma spec_spram_next_aligned:
  "(a + 1) mod 8 \<ge> 6 \<Longrightarrow> spec_spram_next a mod 8 = 0"
  by (simp add: spec_spram_next_def)

lemma ppu_read_spram: "ppu_read reg_spram_data s = Inr (spram s (unat (spram_addr s)))"
  using spram_addr_less[of s] by (simp add: ppu_read_def array_read_def spram_size_def reg_defs)

lemma ppu_write_spram_ex: "\<exists>s'. ppu_write reg_spram_data d s = Inr s'"
  by (simp add: ppu_write_spram Let_def)

lemma unat_and_1F_u8: "unat ((x :: u8) AND 0x1F) = unat x mod 32"
  unfolding and_1F unsigned_take_bit_eq by (simp add: take_bit_eq_mod)

lemma unat_and_07_u8: "unat ((x :: u8) AND 0x07) = unat x mod 8"
  unfolding and_07 unsigned_take_bit_eq by (simp add: take_bit_eq_mod)

subsection \<open>The frame clock\<close>

lemma unat_ticks_succ:
  assumes "unat (t :: u32) < 106392"
  shows "unat (t + 1) = unat t + 1"
  using assms by (simp add: unat_word_ariths)

lemma ppu_tick_count:
  assumes "unat (ticks s) + 1 < 106392"
  shows "unat (ticks (ppu_tick s)) = unat (ticks s) + 1"
proof -
  have u: "unat (ticks s + 1) = unat (ticks s) + 1"
    by (rule unat_ticks_succ) (use assms in simp)
  then have "\<not> ticks s + 1 \<ge> v_total"
    using assms by (simp add: v_total_def word_le_nat_alt)
  then have "ticks (ppu_tick s) = ticks s + 1"
    by (simp add: ppu_tick_def Let_def)
  then show ?thesis
    using u by simp
qed

lemma ppu_tick_reset:
  assumes "unat (ticks s) = 106391"
  shows "ticks (ppu_tick s) = 0"
proof -
  have "unat (ticks s + 1) = 106392"
    using unat_ticks_succ[of "ticks s"] assms by simp
  then have "ticks s + 1 \<ge> v_total"
    by (simp add: v_total_def word_le_nat_alt)
  then show ?thesis
    by (simp add: ppu_tick_def Let_def)
qed

lemma ppu_tick_funpow:
  assumes "ticks s = 0"
  shows "n < 106392 \<Longrightarrow> unat (ticks ((ppu_tick ^^ n) s)) = n"
proof (induction n)
  case 0
  then show ?case using assms by simp
next
  case (Suc n)
  then have "unat (ticks ((ppu_tick ^^ n) s)) = n" by simp
  then show ?case
    using Suc.prems ppu_tick_count[of "(ppu_tick ^^ n) s"] by simp
qed

lemma ppu_is_vblank_iff: "ppu_is_vblank s \<longleftrightarrow> unat (ticks s) < 22036"
  by (simp add: ppu_is_vblank_def vblank_start_def vblank_len_def word_less_nat_alt)

subsection \<open>The compositor\<close>

lemma and_8000_u16: "((w :: u16) AND 0x8000 = 0) = (\<not> bit w 15)"
  using and_exp_eq_0_iff_not_bit[of w 15] by simp

lemma and_8000_u32: "((w :: u32) AND 0x8000 = 0) = (\<not> bit w 15)"
  using and_exp_eq_0_iff_not_bit[of w 15] by simp

lemma and_80000000_u32: "((w :: u32) AND 0x80000000 = 0) = (\<not> bit w 31)"
  using and_exp_eq_0_iff_not_bit[of w 31] by simp

lemma ucast_and_FFFF: "(ucast ((w :: u32) AND 0xFFFF) :: u16) = ucast w"
proof -
  have "(ucast (w AND mask 16) :: u16) = ucast w"
    by (rule bit_eqI) (auto simp: bit_simps)
  then show ?thesis by (simp add: mask_eq_exp_minus_1)
qed

lemma scan_layers_eq: "scan_layers ls i = (top_solid0 ls i, top_solid1 ls i)"
  by (simp add: scan_layers_def top_solid0_def top_solid1_def Let_def
      and_8000_u32 and_80000000_u32 ucast_and_FFFF)

lemma merge_res_cascade:
  "merge_res blend_pal output_pal0 output_pal1 pal0 pal1 =
     (if output_pal1 \<and> solid pal1 then pal1
      else if output_pal0 \<and> solid pal0 then pal0
      else if blend_pal \<and> output_pal0 \<and> output_pal1 then blend_argb1555 pal0 pal1
      else 0x8000)"
  by (simp add: merge_res_def Let_def solid_def and_8000_u16)

lemma fold_upd_other:
  "k \<notin> f ` set xs \<Longrightarrow> fold (\<lambda>x ob. ob(f x := v x)) xs ob k = ob k"
  by (induction xs arbitrary: ob) auto

lemma fold_upd_hit:
  "distinct (map f xs) \<Longrightarrow> x \<in> set xs \<Longrightarrow> fold (\<lambda>x ob. ob(f x := v x)) xs ob (f x) = v x"
proof (induction xs arbitrary: ob)
  case Nil
  then show ?case by simp
next
  case (Cons a xs)
  have step: "fold (\<lambda>x ob. ob(f x := v x)) (a # xs) ob
              = fold (\<lambda>x ob. ob(f x := v x)) xs (ob(f a := v a))"
    by simp
  show ?case
  proof (cases "x = a")
    case True
    then have "f x \<notin> f ` set xs" using Cons.prems(1) by auto
    then have "fold (\<lambda>x ob. ob(f x := v x)) xs (ob(f a := v a)) (f x) = (ob(f a := v a)) (f x)"
      by (rule fold_upd_other)
    then show ?thesis unfolding step using True by simp
  next
    case False
    then have "x \<in> set xs" "distinct (map f xs)" using Cons.prems by auto
    then show ?thesis unfolding step using Cons.IH by blast
  qed
qed

lemma fold_rows_other:
  "(\<forall>y\<in>set ys. \<forall>x\<in>set xs. f y x \<noteq> k) \<Longrightarrow>
   fold (\<lambda>y. fold (\<lambda>x ob. ob(f y x := v y x)) xs) ys ob k = ob k"
proof (induction ys arbitrary: ob)
  case Nil
  then show ?case by simp
next
  case (Cons a ys)
  let ?row = "\<lambda>y. fold (\<lambda>x ob. ob(f y x := v y x)) xs"
  have step: "fold ?row (a # ys) ob = fold ?row ys (?row a ob)"
    by simp
  have "k \<notin> f a ` set xs" using Cons.prems by auto
  then have "?row a ob k = ob k" by (rule fold_upd_other)
  moreover have "fold ?row ys (?row a ob) k = ?row a ob k"
    by (rule Cons.IH) (use Cons.prems in simp)
  ultimately show ?case unfolding step by simp
qed

lemma fold_rows_hit:
  assumes "distinct ys" "distinct xs"
    and inj: "\<And>y x y' x'. y \<in> set ys \<Longrightarrow> y' \<in> set ys \<Longrightarrow> x \<in> set xs \<Longrightarrow> x' \<in> set xs \<Longrightarrow>
              f y x = f y' x' \<Longrightarrow> y = y' \<and> x = x'"
    and "y \<in> set ys" "x \<in> set xs"
  shows "fold (\<lambda>y. fold (\<lambda>x ob. ob(f y x := v y x)) xs) ys ob (f y x) = v y x"
  using assms(1,3,4)
proof (induction ys arbitrary: ob)
  case Nil
  then show ?case by simp
next
  case (Cons a ys)
  let ?row = "\<lambda>y. fold (\<lambda>x ob. ob(f y x := v y x)) xs"
  have step: "fold ?row (a # ys) ob = fold ?row ys (?row a ob)"
    by simp
  show ?case
  proof (cases "y = a")
    case True
    have "inj_on (f a) (set xs)"
      unfolding inj_on_def using Cons.prems(2) by (meson list.set_intros(1))
    then have d: "distinct (map (f a) xs)"
      using assms(2) by (simp add: distinct_map)
    have "\<forall>y'\<in>set ys. \<forall>x'\<in>set xs. f y' x' \<noteq> f y x"
    proof (intro ballI notI)
      fix y' x' assume "y' \<in> set ys" "x' \<in> set xs" "f y' x' = f y x"
      then have "y' = y" using Cons.prems(2) Cons.prems(3) assms(5) by (meson list.set_intros(2))
      then show False using \<open>y' \<in> set ys\<close> True Cons.prems(1) by simp
    qed
    then have "fold ?row ys (?row a ob) (f y x) = ?row a ob (f y x)"
      by (rule fold_rows_other)
    moreover have "?row a ob (f a x) = v a x"
      using d assms(5) by (rule fold_upd_hit)
    ultimately show ?thesis unfolding step using True by simp
  next
    case False
    have "fold ?row ys (?row a ob) (f y x) = v y x"
    proof (rule Cons.IH)
      show "distinct ys" using Cons.prems(1) by simp
      show "y \<in> set ys" using False Cons.prems(3) by simp
      fix y x y' x'
      assume "y \<in> set ys" "y' \<in> set ys" "x \<in> set xs" "x' \<in> set xs" "f y x = f y' x'"
      then show "y = y' \<and> x = x'"
        using Cons.prems(2)[of y y' x x'] by simp
    qed
    then show ?thesis unfolding step .
  qed
qed

lemma index_inj:
  fixes W :: int
  assumes "0 \<le> x" "x < W" "0 \<le> x'" "x' < W" "y * W + x = y' * W + x'"
  shows "y = y' \<and> x = x'"
proof -
  have W: "W \<noteq> 0" using assms by auto
  have "(x + y * W) div W = y" "(x' + y' * W) div W = y'"
    using assms(1-4) W by (simp_all add: div_pos_pos_trivial)
  then have "y = y'" using assms(5) by (simp add: add.commute)
  then show ?thesis using assms(5) by simp
qed

lemma set_map_int_upt: "x \<in> set (map int [0..<nat n]) \<longleftrightarrow> 0 \<le> x \<and> x < n"
proof
  assume "x \<in> set (map int [0..<nat n])"
  then show "0 \<le> x \<and> x < n" by auto
next
  assume a: "0 \<le> x \<and> x < n"
  then have "nat x \<in> set [0..<nat n]" by auto
  then have "int (nat x) \<in> int ` set [0..<nat n]" by (rule imageI)
  then have "int (nat x) \<in> set (map int [0..<nat n])" by (simp only: set_map)
  then show "x \<in> set (map int [0..<nat n])" using a by simp
qed

lemma distinct_map_int_upt: "distinct (map int [0..<n])"
  by (simp add: distinct_map)

lemma merge_layers_obuf:
  assumes "0 \<le> x" "x < out_width g" "0 \<le> y" "y < out_height g"
  shows "obuf (merge_layers lcd g) (y * out_width g + x) = argb1555_to_rgb8888 (merge_pixel lcd g y x)"
proof -
  let ?f = "\<lambda>y x. y * out_width g + x"
  let ?v = "\<lambda>y x. argb1555_to_rgb8888 (merge_pixel lcd g y x)"
  let ?ys = "map int [0..<nat (out_height g)]"
  let ?xs = "map int [0..<nat (out_width g)]"
  have "fold (\<lambda>y. fold (\<lambda>x ob. ob(?f y x := ?v y x)) ?xs) ?ys (obuf g) (?f y x) = ?v y x"
  proof (rule fold_rows_hit)
    show "distinct ?ys" "distinct ?xs" by (rule distinct_map_int_upt)+
    show "y \<in> set ?ys" "x \<in> set ?xs" using assms unfolding set_map_int_upt by simp_all
    fix y x y' x'
    assume "y \<in> set ?ys" "y' \<in> set ?ys" "x \<in> set ?xs" "x' \<in> set ?xs" "?f y x = ?f y' x'"
    then show "y = y' \<and> x = x'"
      unfolding set_map_int_upt using index_inj[of x "out_width g" x' y y'] by simp
  qed
  then show ?thesis by (simp add: merge_layers_def)
qed

subsection \<open>The character decoder\<close>

lemma sdiv_nonneg: "0 \<le> (a :: int) \<Longrightarrow> a sdiv 8 = a div 8"
  by (simp add: signed_divide_int_def sgn_if)

lemma char_spacing_eq:
  assumes "0 \<le> w * h"
  shows "char_spacing w h fmt bmp =
           (if fmt = ARGB1555 then 256 else (if bmp then 16 * 16 else w * h) * bpp_of fmt div 8)"
  using assms by (cases fmt) (simp_all add: char_spacing_def Let_def sdiv_nonneg)

lemma get_char_data_bytes:
  "get_char_data mem seg vector w h fmt bmp buf i =
     (if i < nat ((w * h * bpp_of fmt) sdiv 8)
      then mem (word_of_int (push_bit 13 (uint seg) + uint vector * char_spacing w h fmt bmp) + of_nat i)
      else buf i)"
proof -
  let ?pa = "word_of_int (push_bit 13 (uint seg) + uint vector * char_spacing w h fmt bmp) :: u32"
  let ?n = "nat ((w * h * bpp_of fmt) sdiv 8)"
  have run: "get_char_data mem seg vector w h fmt bmp buf
             = fold (\<lambda>i b. b((\<lambda>i. i) i := (\<lambda>i. mem (?pa + of_nat i)) i)) [0..<?n] buf"
    by (simp add: get_char_data_def Let_def)
  show ?thesis
  proof (cases "i < ?n")
    case True
    have "fold (\<lambda>i b. b((\<lambda>i. i) i := (\<lambda>i. mem (?pa + of_nat i)) i)) [0..<?n] buf ((\<lambda>i. i) i)
          = (\<lambda>i. mem (?pa + of_nat i)) i"
      by (rule fold_upd_hit) (use True in simp_all)
    then show ?thesis unfolding run using True by simp
  next
    case False
    have "fold (\<lambda>i b. b((\<lambda>i. i) i := (\<lambda>i. mem (?pa + of_nat i)) i)) [0..<?n] buf i = buf i"
      by (rule fold_upd_other) (use False in simp)
    then show ?thesis unfolding run using False by simp
  qed
qed

subsection \<open>Tile map addresses\<close>

lemma smod_nonneg: "0 \<le> (a :: int) \<Longrightarrow> 0 < b \<Longrightarrow> a smod b = a mod b"
  by (simp add: signed_modulo_int_def sgn_if)

lemma get_tile_addr_8:
  assumes "0 \<le> tx" "0 \<le> ty"
  shows "get_tile_addr tx ty y8 x8 8 bmp layer scrl =
           (case spec_tile8 scrl tx ty x8 y8 of
              None \<Rightarrow> Inl AssertFailed
            | Some (a, m) \<Rightarrow> Inr (word_of_int a, m))"
  using assms
  by (cases scrl) (simp_all add: get_tile_addr_def spec_tile8_def Let_def smod_nonneg)

lemma get_tile_addr_16:
  assumes "0 \<le> tx" "0 \<le> ty"
  shows "get_tile_addr tx ty y8 x8 16 bmp layer scrl =
           (case spec_tile16 scrl layer tx ty x8 y8 of (a, m) \<Rightarrow> Inr (word_of_int a, m))"
  using assms
  by (cases scrl)
     (simp_all add: get_tile_addr_def spec_tile16_def Let_def smod_nonneg of_int_or_eq ac_simps)

lemma offset_range:
  fixes a b n :: int
  assumes "0 \<le> a" "a < n" "0 \<le> b" "b < n" "0 < n"
  shows "0 \<le> (a + n * b) * 2 \<and> (a + n * b) * 2 < 2 * n * n"
proof -
  have "n * b \<le> n * (n - 1)" using assms by (intro mult_left_mono) simp_all
  then have "a + n * b < n * n" using assms(2) by (simp add: algebra_simps)
  moreover have "0 \<le> n * b" using assms by simp
  ultimately show ?thesis using assms(1) by simp
qed

lemma spec_tile8_range:
  assumes "0 \<le> tx" "0 \<le> ty" "spec_tile8 scrl tx ty x8 y8 = Some (a, m)"
  shows "0 \<le> a \<and> a < 0x1000"
proof -
  have "0 \<le> ((tx mod 32) + 32 * (ty mod 32)) * 2 \<and> ((tx mod 32) + 32 * (ty mod 32)) * 2 < 2048"
    using offset_range[of "tx mod 32" 32 "ty mod 32"] by simp
  then show ?thesis using assms(3)
    by (cases scrl) (auto simp: spec_tile8_def Let_def split: if_splits)
qed

lemma spec_tile16_range:
  assumes "layer = 0 \<or> layer = 1"
  shows "0 \<le> fst (spec_tile16 scrl layer tx ty x8 y8) \<and> fst (spec_tile16 scrl layer tx ty x8 y8) < 0x1000"
proof -
  have o: "0 \<le> ((tx mod 16) + 16 * (ty mod 16)) * 2 \<and> ((tx mod 16) + 16 * (ty mod 16)) * 2 < 512"
    using offset_range[of "tx mod 16" 16 "ty mod 16"] by simp
  show ?thesis using assms o
    by (cases scrl) (auto simp: spec_tile16_def Let_def)
qed

subsection \<open>The blitter\<close>

lemma lo_mask_u32: "(0xFFFF :: u32) = mask 16"
  by (simp add: mask_eq_exp_minus_1)

lemma put_hi_keeps_lo:
  fixes w :: u32 and a :: u16
  shows "(ucast ((w AND 0x0000FFFF) OR push_bit 16 (ucast a)) :: u16) = ucast w"
  unfolding lo_mask_u32 by (rule bit_eqI) (auto simp: bit_simps)

lemma put_lo_keeps_hi_nf:
  fixes w :: u32 and a :: u16
  shows "(ucast (drop_bit 16 w AND 0xFFFF OR drop_bit 16 (ucast a)) :: u16) = ucast (drop_bit 16 w)"
  unfolding lo_mask_u32 by (rule bit_eqI) (auto simp: bit_simps dest: bit_imp_le_length)

lemma put_texel_lo:
  assumes "bit (argb0 st) 15"
  shows "(ucast (dst (put_texel dw dh ds dx dy st) i) :: u16) = ucast (dst st i)"
  using assms by (simp add: put_texel_def Let_def and_8000_u16 put_hi_keeps_lo)

lemma put_texel_hi:
  assumes "bit (argb1 st) 15"
  shows "(ucast (drop_bit 16 (dst (put_texel dw dh ds dx dy st) i)) :: u16) = ucast (drop_bit 16 (dst st i))"
  using assms by (simp add: put_texel_def Let_def and_8000_u16 put_lo_keeps_hi_nf)

lemma put_texel_both:
  assumes "bit (argb0 st) 15" "bit (argb1 st) 15"
  shows "dst (put_texel dw dh ds dx dy st) = dst st"
  using assms by (simp add: put_texel_def Let_def and_8000_u16)

lemma put_texel_locals:
  "argb0 (put_texel dw dh ds dx dy st) = argb0 st"
  "argb1 (put_texel dw dh ds dx dy st) = argb1 st"
  by (simp_all add: put_texel_def Let_def)

lemma sample_texel_dst:
  "sample_texel fmt src pal0 pal1 st = Inr st' \<Longrightarrow> dst st' = dst st"
  by (auto simp: sample_texel_def Let_def split: if_splits sum.splits prod.splits)

lemma sample_texel_zero:
  assumes "fmt \<noteq> ARGB1555" "decode_raw fmt src (srcptr st) (src_bit st) = Inr (0, p, b)"
  shows "sample_texel fmt src pal0 pal1 st =
           Inr (st\<lparr>srcptr := p, src_bit := b, argb0 := 0x8000, argb1 := 0x8000\<rparr>)"
  using assms by (simp add: sample_texel_def)

lemma blit_texel_null_pal0:
  assumes "fmt \<noteq> ARGB1555" "bit (argb0 st) 15"
    and "blit_texel fmt src None pal1 dw dh ds dx dy st = Inr st'"
  shows "bit (argb0 st') 15 \<and> (\<forall>i. (ucast (dst st' i) :: u16) = ucast (dst st i))"
proof -
  from assms(3) obtain m where m: "sample_texel fmt src None pal1 st = Inr m"
    and st': "st' = put_texel dw dh ds dx dy m"
    by (auto simp: blit_texel_def split: sum.splits)
  have b: "bit (argb0 m) 15"
    using m assms(1,2)
    by (auto simp: sample_texel_def split: sum.splits prod.splits if_splits)
  then have "\<forall>i. (ucast (dst st' i) :: u16) = ucast (dst m i)"
    unfolding st' by (simp add: put_texel_lo)
  then show ?thesis
    using b sample_texel_dst[OF m] unfolding st' by (simp add: put_texel_locals)
qed

lemma blit_loop_null_pal0:
  assumes "fmt \<noteq> ARGB1555"
  shows "bit (argb0 st) 15 \<Longrightarrow>
         blit_loop fmt src None pal1 dw dh ds dst_x dst_y ts st = Inr st' \<Longrightarrow>
         bit (argb0 st') 15 \<and> (\<forall>i. (ucast (dst st' i) :: u16) = ucast (dst st i))"
proof (induction ts arbitrary: st)
  case Nil
  then show ?case by simp
next
  case (Cons t ts)
  obtain sy sx where t: "t = (sy, sx)" by (cases t)
  from Cons.prems(2) obtain m where
    m: "blit_texel fmt src None pal1 dw dh ds (dst_x + int sx) (dst_y + int sy) st = Inr m"
    and r: "blit_loop fmt src None pal1 dw dh ds dst_x dst_y ts m = Inr st'"
    unfolding t by (auto split: sum.splits)
  note one = blit_texel_null_pal0[OF assms Cons.prems(1) m]
  from Cons.IH[OF conjunct1[OF one] r] one show ?case by simp
qed

subsection \<open>The sound part of the blend\<close>

lemma blend_transparent:
  "bit a 15 \<Longrightarrow> blend_argb1555 a b = b"
  "\<not> bit a 15 \<Longrightarrow> bit b 15 \<Longrightarrow> blend_argb1555 a b = a"
  by (simp_all add: blend_argb1555_def and_8000_u16)

lemma blend_solid_shape:
  assumes "\<not> bit a 15" "\<not> bit b 15"
  shows "blend_argb1555 a b =
           take_bit 5 ((take_bit 5 a + take_bit 5 b) div 2) OR
           push_bit 5 (take_bit 5 ((take_bit 5 (drop_bit 5 a) + take_bit 1 (drop_bit 5 b)) div 2)) OR
           push_bit 10 (take_bit 5 ((take_bit 5 (drop_bit 11 a) + take_bit 5 (drop_bit 11 b)) div 2))"
proof -
  have one: "(x :: u16) AND 1 = take_bit 1 x" for x
    using take_bit_eq_mask[of 1 x] by simp
  show ?thesis
    using assms by (simp add: blend_argb1555_def and_8000_u16 Let_def and_1F one or.assoc)
qed

lemma blend_solid_red:
  assumes "\<not> bit a 15" "\<not> bit b 15"
  shows "\<not> bit (blend_argb1555 a b) 15"
    and "chan 0 (blend_argb1555 a b) = (chan 0 a + chan 0 b) div 2"
proof -
  note sh = blend_solid_shape[OF assms]
  show "\<not> bit (blend_argb1555 a b) 15"
    unfolding sh by (simp add: bit_simps)
  let ?r = "(take_bit 5 a + take_bit 5 b) div 2"
  have ta: "unat (take_bit 5 a) < 32" "unat (take_bit 5 b) < 32"
    unfolding unsigned_take_bit_eq by (simp_all add: take_bit_eq_mod)
  then have sum: "unat (take_bit 5 a + take_bit 5 b) = unat (take_bit 5 a) + unat (take_bit 5 b)"
    by (simp add: unat_word_ariths)
  have r: "unat ?r = (unat (take_bit 5 a) + unat (take_bit 5 b)) div 2"
    using sum by (simp add: unat_div)
  then have "unat ?r < 32" using ta by simp
  then have tr: "unat (take_bit 5 ?r) = unat ?r"
    unfolding unsigned_take_bit_eq by (simp add: take_bit_nat_eq_self)
  have "take_bit 5 (blend_argb1555 a b) = take_bit 5 ?r"
    unfolding sh by (rule bit_eqI) (auto simp: bit_simps)
  then show "chan 0 (blend_argb1555 a b) = (chan 0 a + chan 0 b) div 2"
    using tr r by (simp add: chan_def)
qed

section \<open>The claims\<close>

text \<open>
  Claim C1 says that \<open>blend_argb1555\<close> returns the other operand when one is
  transparent and otherwise the per-channel floor of the mean, red at bits 4:0, green at
  bits 9:5, blue at bits 14:10, bit 15 clear. On two solid operands the source masks the
  second operand's green channel with \<open>0x1\<close> and reads the blue channels from bit 11:
  blending pure green \<open>0x03E0\<close> with itself gives \<open>0x0200\<close> and pure blue \<open>0x7C00\<close>
  with itself gives \<open>0x3C00\<close>, where the per-channel average gives the colour itself.
\<close>

theorem blend_argb1555_green_blue:
  "blend_argb1555 0x03E0 0x03E0 = 0x0200 \<and> spec_blend 0x03E0 0x03E0 = 0x03E0 \<and>
   blend_argb1555 0x7C00 0x7C00 = 0x3C00 \<and> spec_blend 0x7C00 0x7C00 = 0x7C00"
  by (simp add: blend_argb1555_def spec_blend_def chan_def)

text \<open>
  Claim C2, as amended. \<open>get_char_data\<close> stores in \<open>buf[i]\<close>, for every \<open>i\<close> below
  \<open>w * h * bpp / 8\<close>, the byte at physical address
  \<open>(seg << 13) + vector * spacing + i\<close> (as a 32-bit value) and leaves the rest of the
  buffer alone, where the spacing in bytes is 256 for ARGB1555 (16 * 16 texels counted at
  8 bits each, with or without bitmap mode), 16 * 16 texels scaled by \<open>bpp/8\<close> for an
  indexed format in bitmap mode, and \<open>w * h\<close> texels scaled by \<open>bpp/8\<close> otherwise
  (\<open>w * h\<close> not negative).
\<close>

theorem char_fetch_address:
  assumes "0 \<le> w * h"
  shows "get_char_data mem seg vector w h fmt bmp buf i =
     (if i < nat (w * h * bpp_of fmt div 8)
      then mem (word_of_int (push_bit 13 (uint seg) + uint vector *
                  (if fmt = ARGB1555 then 256 else spec_spacing w h fmt bmp)) + of_nat i)
      else buf i)"
proof -
  have "0 \<le> bpp_of fmt" by (cases fmt) simp_all
  then have "0 \<le> w * h * bpp_of fmt" using assms by simp
  then have len: "(w * h * bpp_of fmt) sdiv 8 = w * h * bpp_of fmt div 8"
    by (rule sdiv_nonneg)
  have sp: "char_spacing w h fmt bmp = (if fmt = ARGB1555 then 256 else spec_spacing w h fmt bmp)"
    unfolding char_spacing_eq[OF assms] by (simp add: spec_spacing_def)
  show ?thesis
    unfolding get_char_data_bytes len sp by simp
qed

theorem char_fetch_address_witness:
  "get_char_data (\<lambda>a. ucast a) 1 2 8 8 IDX_16 False (\<lambda>_. 0) 3 = 0x43 \<and>
   get_char_data (\<lambda>a. ucast a) 1 2 8 8 IDX_16 False (\<lambda>_. 0) 32 = 0"
proof -
  have h: "(0::int) \<le> 8 * 8" by simp
  show ?thesis
    using char_fetch_address[OF h, of "\<lambda>a. ucast a" 1 2 IDX_16 False "\<lambda>_. 0" 3]
          char_fetch_address[OF h, of "\<lambda>a. ucast a" 1 2 IDX_16 False "\<lambda>_. 0" 32]
    by (simp add: spec_spacing_def)
qed

text \<open>
  The claim as stated gives ARGB1555 a spacing of 512 bytes; the source computes 256, and
  the first byte fetched for vector 1 of segment 0 is not the byte at address 512.
\<close>

theorem char_fetch_address_counterexample:
  "spec_spacing 16 16 ARGB1555 False = 512 \<and> char_spacing 16 16 ARGB1555 False = 256 \<and>
   get_char_data (mem_mark 512) 0 1 16 16 ARGB1555 False zero_buf 0 = 0 \<and>
   mem_mark 512 (word_of_int (push_bit 13 (uint (0 :: u16)) +
                  uint (1 :: u16) * spec_spacing 16 16 ARGB1555 False)) = 1"
  by (simp add: get_char_data_bytes char_spacing_def spec_spacing_def signed_divide_int_def
      mem_mark_def zero_buf_def)

text \<open>
  Claim C3 says that with \<open>pal0\<close> null a texel of nonzero index leaves the low 16 bits
  of its cell unchanged. The source then reads \<open>argb0\<close> without having assigned it: with
  \<open>0x001F\<close> in the variable's storage on entry, a one-texel blit of index 1 with
  \<open>pal0\<close> null overwrites the low half \<open>0x8000\<close> of the cell with \<open>0x001F\<close>.
\<close>

theorem vt_blit_null_palette_stale:
  "\<exists>d. vt_blit 1 1 (\<lambda>_. 1) 256 256 256 0 0 (\<lambda>_. 0x80008000) IDX_256
            None (Some (\<lambda>_. 0)) 0x001F 0x8000 = Inr d \<and>
       d 0 = 0x0000001F \<and> (ucast (d 0) :: u16) \<noteq> 0x8000"
  by (simp add: vt_blit_def blit_texel_def sample_texel_def decode_raw_def pal_entry_def put_texel_def)

text \<open>
  Claim C4. From any state, with \<open>A\<close> the VRAM window address the registers hold, a run
  of \<open>N\<close> writes to the data port \<open>0x07\<close> never faults; afterwards register \<open>0x05\<close> is
  \<open>(A + N) & 0xFF\<close> and the low five bits of register \<open>0x06\<close> are
  \<open>((A + N) >> 8) & 0x1F\<close>. The \<open>i\<close>-th write stores its byte at
  \<open>vram[(A + i) mod 2^13]\<close>, and reading the data port with the window set to that
  address returns it: right after that write, and also after the whole run when no later
  write of the run came back to the same address (\<open>N \<le> i + 8192\<close>). Reading is a
  function of the state alone: it moves no address.
\<close>

theorem vram_port_write_sequence:
  "\<exists>s'. ppu_writes reg_vram_data bs s = Inr s' \<and>
     unat (ppu_regs s' 0x05) = (unat (vram_addr s) + length bs) mod 256 \<and>
     unat (ppu_regs s' 0x06 AND 0x1F) = (unat (vram_addr s) + length bs) div 256 mod 32 \<and>
     (\<forall>i<length bs.
        (\<exists>si. ppu_writes reg_vram_data (take (Suc i) bs) s = Inr si \<and>
              vram si ((unat (vram_addr s) + i) mod 8192) = bs ! i \<and>
              vram_peek ((unat (vram_addr s) + i) mod 8192) si = Inr (bs ! i)) \<and>
        (length bs \<le> i + 8192 \<longrightarrow>
              vram s' ((unat (vram_addr s) + i) mod 8192) = bs ! i \<and>
              vram_peek ((unat (vram_addr s) + i) mod 8192) s' = Inr (bs ! i)))"
proof -
  obtain s' where run: "ppu_writes reg_vram_data bs s = Inr s'"
    and addr: "unat (vram_addr s') = (unat (vram_addr s) + length bs) mod 8192"
    using ppu_writes_vram[of bs s] by blast
  have peek: "vram_peek ((unat (vram_addr s) + i) mod 8192) t = Inr (vram t ((unat (vram_addr s) + i) mod 8192))" for i t
    by (rule vram_peek_eq) simp
  have each: "(\<exists>si. ppu_writes reg_vram_data (take (Suc i) bs) s = Inr si \<and>
              vram si ((unat (vram_addr s) + i) mod 8192) = bs ! i \<and>
              vram_peek ((unat (vram_addr s) + i) mod 8192) si = Inr (bs ! i)) \<and>
        (length bs \<le> i + 8192 \<longrightarrow>
              vram s' ((unat (vram_addr s) + i) mod 8192) = bs ! i \<and>
              vram_peek ((unat (vram_addr s) + i) mod 8192) s' = Inr (bs ! i))"
    if "i < length bs" for i
    using vram_write_nth[OF that run] unfolding peek by blast
  show ?thesis
    using run vram_regs_of_addr[OF addr] each by blast
qed

theorem vram_port_write_sequence_witness:
  "\<exists>s'. ppu_writes reg_vram_data [0xAB, 0xCD]
          \<lparr>ppu_regs = (\<lambda>_. 0)(0x06 := 0x1F, 0x05 := 0xFF), vram = (\<lambda>_. 0), spram = (\<lambda>_. 0),
           ticks = 0, render_ready = False\<rparr> = Inr s' \<and>
        ppu_regs s' 0x05 = 0x01 \<and> ppu_regs s' 0x06 AND 0x1F = 0x00 \<and>
        vram s' 0x1FFF = 0xAB \<and> vram s' 0 = 0xCD \<and>
        vram_peek 0x1FFF s' = Inr 0xAB \<and> vram_peek 0 s' = Inr 0xCD"
proof -
  let ?s = "\<lparr>ppu_regs = (\<lambda>_. 0)(0x06 := 0x1F, 0x05 := 0xFF), vram = (\<lambda>_. 0), spram = (\<lambda>_. 0),
           ticks = 0, render_ready = False\<rparr>"
  let ?bs = "[0xAB, 0xCD] :: u8 list"
  have A: "unat (vram_addr ?s) = 8191"
    by (simp add: unat_vram_addr reg_defs)
  from vram_port_write_sequence[of ?bs ?s] obtain s' where
    run: "ppu_writes reg_vram_data ?bs ?s = Inr s'"
    and r5: "unat (ppu_regs s' 0x05) = (unat (vram_addr ?s) + length ?bs) mod 256"
    and r6: "unat (ppu_regs s' 0x06 AND 0x1F) = (unat (vram_addr ?s) + length ?bs) div 256 mod 32"
    and each: "\<And>i. i < length ?bs \<Longrightarrow> length ?bs \<le> i + 8192 \<Longrightarrow>
              vram s' ((unat (vram_addr ?s) + i) mod 8192) = ?bs ! i \<and>
              vram_peek ((unat (vram_addr ?s) + i) mod 8192) s' = Inr (?bs ! i)"
    by blast
  have "unat (ppu_regs s' 0x05) = 1" using r5 unfolding A by simp
  then have r5': "ppu_regs s' 0x05 = 0x01" by (simp add: word_unat_eq_iff)
  have "unat (ppu_regs s' 0x06 AND 0x1F) = 0" using r6 unfolding A by simp
  then have r6': "ppu_regs s' 0x06 AND 0x1F = 0x00" by (simp add: unat_eq_0)
  have "vram s' 0x1FFF = 0xAB \<and> vram_peek 0x1FFF s' = Inr 0xAB"
    using each[of 0] unfolding A by simp
  moreover have "vram s' 0 = 0xCD \<and> vram_peek 0 s' = Inr 0xCD"
    using each[of 1] unfolding A by simp
  ultimately show ?thesis using run r5' r6' by blast
qed

text \<open>
  Claim C5. A write to the SPRAM data port \<open>0x04\<close> never faults: it stores the byte at
  the current 11-bit SPRAM address (below 2048); the address then becomes the address plus
  one, rounded up to the next multiple of 8 when the low three bits of that are 6 or 7
  (the low three bits are then 0), and register \<open>0x02\<close> holds bits 10 to 8 and register
  \<open>0x03\<close> bits 7 to 0 of it, so that the address the registers give next is the result
  as an 11-bit number.
\<close>

theorem spram_port_write:
  "\<exists>s'. ppu_write 0x04 d s = Inr s' \<and>
        unat (spram_addr s) < 2048 \<and>
        spram s' = (spram s)(unat (spram_addr s) := d) \<and>
        unat (ppu_regs s' 0x02) = spec_spram_next (unat (spram_addr s)) div 256 mod 8 \<and>
        unat (ppu_regs s' 0x03) = spec_spram_next (unat (spram_addr s)) mod 256 \<and>
        unat (spram_addr s') = spec_spram_next (unat (spram_addr s)) mod 2048 \<and>
        ((unat (spram_addr s) + 1) mod 8 \<ge> 6 \<longrightarrow>
           unat (spram_addr s') mod 8 = 0 \<and> unat (ppu_regs s' 0x03) mod 8 = 0)"
proof -
  obtain s' where w: "ppu_write reg_spram_data d s = Inr s'"
    using ppu_write_spram_ex by blast
  note e = spram_write_effect[OF w]
  have al: "unat (spram_addr s') mod 8 = 0 \<and> unat (ppu_regs s' 0x03) mod 8 = 0"
    if "(unat (spram_addr s) + 1) mod 8 \<ge> 6"
  proof -
    have z: "spec_spram_next (unat (spram_addr s)) mod 8 = 0"
      by (rule spec_spram_next_aligned[OF that])
    have "spec_spram_next (unat (spram_addr s)) mod 2048 mod 8 = 0"
      using z by (simp add: mod_mod_cancel)
    moreover have "spec_spram_next (unat (spram_addr s)) mod 256 mod 8 = 0"
      using z by (simp add: mod_mod_cancel)
    ultimately show ?thesis using e(4,5) by (simp add: reg_defs)
  qed
  show ?thesis
    using w e spram_addr_less[of s] al by (auto simp: reg_defs)
qed

theorem spram_port_write_witness:
  "\<exists>s'. ppu_write 0x04 0x5A
          \<lparr>ppu_regs = (\<lambda>_. 0)(0x02 := 0x07, 0x03 := 0xFD), vram = (\<lambda>_. 0), spram = (\<lambda>_. 0),
           ticks = 0, render_ready = False\<rparr> = Inr s' \<and>
        spram s' 0x7FD = 0x5A \<and> ppu_regs s' 0x02 = 0 \<and> ppu_regs s' 0x03 = 0 \<and>
        spram_addr s' = 0"
proof -
  let ?s = "\<lparr>ppu_regs = (\<lambda>_. 0)(0x02 := 0x07, 0x03 := 0xFD), vram = (\<lambda>_. 0), spram = (\<lambda>_. 0),
           ticks = 0, render_ready = False\<rparr>"
  have A: "unat (spram_addr ?s) = 2045"
    by (simp add: unat_spram_addr reg_defs)
  have n: "spec_spram_next 2045 = 2048"
    by (simp add: spec_spram_next_def)
  from spram_port_write[of "0x5A" ?s] obtain s' where
    "ppu_write 0x04 0x5A ?s = Inr s'"
    "spram s' = (spram ?s)(unat (spram_addr ?s) := 0x5A)"
    "unat (ppu_regs s' 0x02) = spec_spram_next (unat (spram_addr ?s)) div 256 mod 8"
    "unat (ppu_regs s' 0x03) = spec_spram_next (unat (spram_addr ?s)) mod 256"
    "unat (spram_addr s') = spec_spram_next (unat (spram_addr ?s)) mod 2048"
    by blast
  then show ?thesis
    unfolding A n by (auto simp: unat_eq_0)
qed

text \<open>
  Claim C6. One pass of the loop body of \<open>vt_blit\<close>: with an indexed format, a texel
  that decodes to index 0 does not fault and leaves the whole destination unchanged,
  whatever the palettes; and for every format, when the texel's sample for bank 0 is
  transparent (bit 15 set) the low 16 bits of every destination cell are unchanged, and
  when its sample for bank 1 is transparent the high 16 bits are.
\<close>

theorem blit_texel_transparent:
  "(fmt \<noteq> ARGB1555 \<and> decode_raw fmt src (srcptr st) (src_bit st) = Inr (0, p, b) \<longrightarrow>
      (\<exists>st'. blit_texel fmt src pal0 pal1 dw dh ds dx dy st = Inr st' \<and> dst st' = dst st)) \<and>
   (\<forall>st'. blit_texel fmt src pal0 pal1 dw dh ds dx dy st = Inr st' \<longrightarrow>
      (bit (argb0 st') 15 \<longrightarrow>
         (\<forall>i. (ucast (dst st' i) :: u16) = ucast (dst st i))) \<and>
      (bit (argb1 st') 15 \<longrightarrow>
         (\<forall>i. (ucast (drop_bit 16 (dst st' i)) :: u16) = ucast (drop_bit 16 (dst st i)))))"
proof (intro conjI impI allI)
  assume "fmt \<noteq> ARGB1555 \<and> decode_raw fmt src (srcptr st) (src_bit st) = Inr (0, p, b)"
  then have s: "sample_texel fmt src pal0 pal1 st =
           Inr (st\<lparr>srcptr := p, src_bit := b, argb0 := 0x8000, argb1 := 0x8000\<rparr>)"
    by (simp add: sample_texel_zero)
  let ?m = "st\<lparr>srcptr := p, src_bit := b, argb0 := 0x8000, argb1 := 0x8000\<rparr>"
  have "dst (put_texel dw dh ds dx dy ?m) = dst ?m"
    by (rule put_texel_both) simp_all
  then show "\<exists>st'. blit_texel fmt src pal0 pal1 dw dh ds dx dy st = Inr st' \<and> dst st' = dst st"
    by (simp add: blit_texel_def s)
next
  fix st' i
  assume r: "blit_texel fmt src pal0 pal1 dw dh ds dx dy st = Inr st'" and t: "bit (argb0 st') 15"
  from r obtain m where m: "sample_texel fmt src pal0 pal1 st = Inr m"
    and st': "st' = put_texel dw dh ds dx dy m"
    by (auto simp: blit_texel_def split: sum.splits)
  have "bit (argb0 m) 15" using t unfolding st' put_texel_locals .
  then have "(ucast (dst st' i) :: u16) = ucast (dst m i)"
    unfolding st' by (rule put_texel_lo)
  then show "(ucast (dst st' i) :: u16) = ucast (dst st i)"
    using sample_texel_dst[OF m] by simp
next
  fix st' i
  assume r: "blit_texel fmt src pal0 pal1 dw dh ds dx dy st = Inr st'" and t: "bit (argb1 st') 15"
  from r obtain m where m: "sample_texel fmt src pal0 pal1 st = Inr m"
    and st': "st' = put_texel dw dh ds dx dy m"
    by (auto simp: blit_texel_def split: sum.splits)
  have "bit (argb1 m) 15" using t unfolding st' put_texel_locals .
  then have "(ucast (drop_bit 16 (dst st' i)) :: u16) = ucast (drop_bit 16 (dst m i))"
    unfolding st' by (rule put_texel_hi)
  then show "(ucast (drop_bit 16 (dst st' i)) :: u16) = ucast (drop_bit 16 (dst st i))"
    using sample_texel_dst[OF m] by simp
qed

theorem blit_texel_transparent_witness:
  "(\<exists>st'. blit_texel IDX_16 (\<lambda>_. 0x30) (Some (\<lambda>_. 0x11)) None 256 256 256 0 0
            \<lparr>srcptr = 0, src_bit = 0, argb0 = 0x001F, argb1 = 0x001F, dst = (\<lambda>_. 0x12345678)\<rparr>
          = Inr st' \<and> dst st' 0 = 0x12345678) \<and>
   (\<exists>st'. blit_texel IDX_16 (\<lambda>_. 0x30) (Some (\<lambda>i. if i = 7 then 0x80 else 0)) (Some (\<lambda>_. 0x11))
            256 256 256 0 0
            \<lparr>srcptr = 0, src_bit = 4, argb0 = 0x001F, argb1 = 0x001F, dst = (\<lambda>_. 0x12345678)\<rparr>
          = Inr st' \<and> argb0 st' = 0x8000 \<and> dst st' 0 \<noteq> 0x12345678 \<and>
          (ucast (dst st' 0) :: u16) = 0x5678)"
proof -
  let ?s1 = "\<lparr>srcptr = 0, src_bit = 0, argb0 = 0x001F, argb1 = 0x001F, dst = (\<lambda>_. 0x12345678 :: u32)\<rparr>"
  let ?s2 = "\<lparr>srcptr = 0, src_bit = 4, argb0 = 0x001F, argb1 = 0x001F, dst = (\<lambda>_. 0x12345678 :: u32)\<rparr>"
  let ?p0 = "\<lambda>i :: nat. if i = 7 then 0x80 else 0 :: u8"
  have d: "decode_raw IDX_16 (\<lambda>_. 0x30) (srcptr ?s1) (src_bit ?s1) = Inr (0, 0, 4)"
    by (simp add: decode_raw_def)
  have a: "\<exists>st'. blit_texel IDX_16 (\<lambda>_. 0x30) (Some (\<lambda>_. 0x11)) None 256 256 256 0 0 ?s1 = Inr st' \<and>
            dst st' 0 = 0x12345678"
    using blit_texel_transparent[of IDX_16 "\<lambda>_. 0x30" ?s1 0 4 "Some (\<lambda>_. 0x11)" None 256 256 256 0 0] d
    by auto
  have e: "blit_texel IDX_16 (\<lambda>_. 0x30) (Some ?p0) (Some (\<lambda>_. 0x11)) 256 256 256 0 0 ?s2
           = Inr \<lparr>srcptr = 1, src_bit = 0, argb0 = 0x8000, argb1 = 0x1111,
                  dst = (\<lambda>_. 0x12345678)(0 := 0x11115678)\<rparr>"
    by (simp add: blit_texel_def sample_texel_def decode_raw_def pal_entry_def put_texel_def)
  have "(ucast (dst \<lparr>srcptr = 1, src_bit = 0, argb0 = 0x8000, argb1 = 0x1111,
                  dst = (\<lambda>_. 0x12345678)(0 := 0x11115678 :: u32)\<rparr> 0) :: u16) = ucast (dst ?s2 0)"
    using blit_texel_transparent[of IDX_16 "\<lambda>_. 0x30" ?s2 0 0 "Some ?p0" "Some (\<lambda>_. 0x11)" 256 256 256 0 0] e
    by simp
  then show ?thesis using a e by simp
qed

text \<open>
  Claim C7. For tile indices \<open>tx, ty \<ge> 0\<close>, \<open>get_tile_addr\<close> with tile size 8 returns
  the address (as \<open>uint16_t\<close>) and mapped flag of the specification's first table, and
  fails its assertion in 4P mode, for which the table has no entry; with tile size 16 it
  returns those of the second table, every base ORed with \<open>layer << 11\<close>. The table
  addresses are below \<open>0x1000\<close> (for layer 0 or 1), so the conversion to \<open>uint16_t\<close>
  does not change them.
\<close>

theorem get_tile_addr_tables:
  assumes "0 \<le> tx" "0 \<le> ty"
  shows "get_tile_addr tx ty y8 x8 8 bmp layer scrl =
           (case spec_tile8 scrl tx ty x8 y8 of
              None \<Rightarrow> Inl AssertFailed
            | Some (a, m) \<Rightarrow> Inr (word_of_int a, m)) \<and>
         get_tile_addr tx ty y8 x8 16 bmp layer scrl =
           (case spec_tile16 scrl layer tx ty x8 y8 of (a, m) \<Rightarrow> Inr (word_of_int a, m)) \<and>
         (\<forall>a m. spec_tile8 scrl tx ty x8 y8 = Some (a, m) \<longrightarrow> 0 \<le> a \<and> a < 0x1000) \<and>
         (layer = 0 \<or> layer = 1 \<longrightarrow>
            0 \<le> fst (spec_tile16 scrl layer tx ty x8 y8) \<and>
            fst (spec_tile16 scrl layer tx ty x8 y8) < 0x1000)"
proof (intro conjI allI impI)
  show "get_tile_addr tx ty y8 x8 8 bmp layer scrl =
           (case spec_tile8 scrl tx ty x8 y8 of
              None \<Rightarrow> Inl AssertFailed
            | Some (a, m) \<Rightarrow> Inr (word_of_int a, m))"
    by (rule get_tile_addr_8[OF assms])
  show "get_tile_addr tx ty y8 x8 16 bmp layer scrl =
           (case spec_tile16 scrl layer tx ty x8 y8 of (a, m) \<Rightarrow> Inr (word_of_int a, m))"
    by (rule get_tile_addr_16[OF assms])
next
  fix a m assume "spec_tile8 scrl tx ty x8 y8 = Some (a, m)"
  then show "0 \<le> a" "a < 0x1000" using spec_tile8_range[OF assms] by blast+
next
  assume "layer = 0 \<or> layer = 1"
  then show "0 \<le> fst (spec_tile16 scrl layer tx ty x8 y8)"
    "fst (spec_tile16 scrl layer tx ty x8 y8) < 0x1000"
    using spec_tile16_range by blast+
qed

theorem get_tile_addr_tables_witness:
  "get_tile_addr 33 5 False False 8 False 0 SCROLL_H = Inr (0x942, True) \<and>
   get_tile_addr 32 5 False False 8 False 0 SCROLL_H = Inr (0x140, True) \<and>
   get_tile_addr 3 2 False False 8 False 0 SCROLL_4P = Inl AssertFailed \<and>
   get_tile_addr 17 3 False True 16 False 1 SCROLL_4P = Inr (0x862, True)"
proof -
  have h: "(0::int) \<le> 33" "(0::int) \<le> 5" "(0::int) \<le> 32" "(0::int) \<le> 3" "(0::int) \<le> 2"
    "(0::int) \<le> 17" by simp_all
  show ?thesis
    using get_tile_addr_tables[OF h(1) h(2), of False False False 0 SCROLL_H]
      get_tile_addr_tables[OF h(3) h(2), of False False False 0 SCROLL_H]
      get_tile_addr_tables[OF h(4) h(5), of False False False 0 SCROLL_4P]
      get_tile_addr_tables[OF h(6) h(4), of False True False 1 SCROLL_4P]
    by (simp add: spec_tile8_def spec_tile16_def)
qed

text \<open>
  Claim C8. For every output pixel \<open>(x, y)\<close>, \<open>merge_layers\<close> writes to
  \<open>obuf[y * out_width + x]\<close> the ARGB8888 conversion of the colour \<open>res\<close>, where per
  palette bank the sample kept by the scan from layer 3 down to layer 0 is the solid sample
  of the lowest-numbered layer that has one (\<open>0x8000\<close> when none has), and \<open>res\<close> is
  \<open>pal1\<close> if \<open>output_pal1\<close> is set and \<open>pal1\<close> is solid, otherwise \<open>pal0\<close> if
  \<open>output_pal0\<close> is set and \<open>pal0\<close> is solid, otherwise
  \<open>blend_argb1555(pal0, pal1)\<close> if \<open>blend_pal\<close>, \<open>output_pal0\<close> and \<open>output_pal1\<close> are
  all set, otherwise \<open>0x8000\<close>.
\<close>

theorem merge_layers_pixel:
  assumes "0 \<le> x" "x < out_width g" "0 \<le> y" "y < out_height g"
  shows "obuf (merge_layers lcd g) (y * out_width g + x) =
           argb1555_to_rgb8888 (merge_pixel lcd g y x) \<and>
         merge_pixel lcd g y x =
           (let pal0 = top_solid0 (layers g) (y * layer_width g + x);
                pal1 = top_solid1 (layers g) (y * layer_width g + x);
                output_pal0 = bit (ppu_regs_shadow g 0x0E) (if lcd then 0 else 1);
                output_pal1 = bit (ppu_regs_shadow g 0x0E) (if lcd then 2 else 3);
                blend_pal = bit (ppu_regs_shadow g 0x0E) (if lcd then 5 else 4)
            in if output_pal1 \<and> solid pal1 then pal1
               else if output_pal0 \<and> solid pal0 then pal0
               else if blend_pal \<and> output_pal0 \<and> output_pal1 then blend_argb1555 pal0 pal1
               else 0x8000)"
proof -
  have "merge_pixel lcd g y x =
           (let pal0 = top_solid0 (layers g) (y * layer_width g + x);
                pal1 = top_solid1 (layers g) (y * layer_width g + x);
                output_pal0 = bit (ppu_regs_shadow g 0x0E) (if lcd then 0 else 1);
                output_pal1 = bit (ppu_regs_shadow g 0x0E) (if lcd then 2 else 3);
                blend_pal = bit (ppu_regs_shadow g 0x0E) (if lcd then 5 else 4)
            in if output_pal1 \<and> solid pal1 then pal1
               else if output_pal0 \<and> solid pal0 then pal0
               else if blend_pal \<and> output_pal0 \<and> output_pal1 then blend_argb1555 pal0 pal1
               else 0x8000)"
    unfolding merge_pixel_def scan_layers_eq merge_res_cascade
    by (simp add: Let_def get_bit_def reg_pal_sel_def)
  then show ?thesis using merge_layers_obuf[OF assms] by simp
qed

theorem merge_layers_pixel_witness:
  "obuf (merge_layers False
      \<lparr>ppu_regs_shadow = (\<lambda>_. 0)(0x0E := 0x0A),
       layers = (\<lambda>l i. if l = 1 then 0x80007C00 else if l = 2 then 0x001F03E0 else 0x80008000),
       layer_width = 256, layer_height = 256, obuf = (\<lambda>_. 0),
       out_width = 256, out_height = 240\<rparr>) 0 = 0xFFFF0000 \<and>
   merge_pixel False
      \<lparr>ppu_regs_shadow = (\<lambda>_. 0)(0x0E := 0x0A),
       layers = (\<lambda>l i. if l = 1 then 0x80007C00 else if l = 2 then 0x001F03E0 else 0x80008000),
       layer_width = 256, layer_height = 256, obuf = (\<lambda>_. 0),
       out_width = 256, out_height = 240\<rparr> 0 0 = 0x001F"
proof -
  let ?g = "\<lparr>ppu_regs_shadow = (\<lambda>_. 0)(0x0E := 0x0A),
       layers = (\<lambda>l i. if l = 1 then 0x80007C00 else if l = 2 then 0x001F03E0 else 0x80008000),
       layer_width = 256, layer_height = 256, obuf = (\<lambda>_. 0),
       out_width = 256, out_height = 240\<rparr>"
  have p: "merge_pixel False ?g 0 0 = 0x001F"
    using merge_layers_pixel[of 0 ?g 0 False]
    by (simp add: top_solid0_def top_solid1_def solid_def)
  have "obuf (merge_layers False ?g) 0 = argb1555_to_rgb8888 (merge_pixel False ?g 0 0)"
    using merge_layers_pixel[of 0 ?g 0 False] by simp
  then have "obuf (merge_layers False ?g) 0 = 0xFFFF0000"
    unfolding p by (simp add: argb1555_to_rgb8888_def c5_to_8_def get_bit_def)
  then show ?thesis using p by simp
qed

text \<open>
  Claim C9. Starting from \<open>ticks = 0\<close>, after \<open>n\<close> calls of \<open>ppu_tick\<close> with
  \<open>n < v_total = 106392\<close> the counter is \<open>n\<close> (so no call before the 106392nd brings it
  back to 0), and the 106392nd call resets it to 0. In every state \<open>ppu_is_vblank\<close> is
  true exactly when \<open>vblank_start \<le> ticks < vblank_len\<close>, that is \<open>0 \<le> ticks < 22036\<close>.
\<close>

theorem frame_clock:
  assumes "ticks s = 0"
  shows "(\<forall>n<106392. unat (ticks ((ppu_tick ^^ n) s)) = n) \<and>
         ticks ((ppu_tick ^^ 106392) s) = 0 \<and>
         unat v_total = 106392 \<and> unat vblank_start = 0 \<and> unat vblank_len = 22036 \<and>
         (\<forall>t. ppu_is_vblank t \<longleftrightarrow>
                unat vblank_start \<le> unat (ticks t) \<and> unat (ticks t) < unat vblank_len)"
proof -
  have cnt: "\<forall>n<106392. unat (ticks ((ppu_tick ^^ n) s)) = n"
    using ppu_tick_funpow[OF assms] by blast
  have "(106392::nat) = Suc 106391" by simp
  then have "(ppu_tick ^^ 106392) s = ppu_tick ((ppu_tick ^^ 106391) s)"
    by (simp only: funpow.simps o_apply)
  moreover have "unat (ticks ((ppu_tick ^^ 106391) s)) = 106391"
    using cnt by simp
  ultimately have wrap: "ticks ((ppu_tick ^^ 106392) s) = 0"
    using ppu_tick_reset by simp
  have cs: "unat v_total = 106392" "unat vblank_start = 0" "unat vblank_len = 22036"
    by (simp_all add: v_total_def vblank_start_def vblank_len_def)
  show ?thesis
    using cnt wrap cs ppu_is_vblank_iff by simp
qed

theorem frame_clock_witness:
  "unat (ticks ((ppu_tick ^^ 22036)
      \<lparr>ppu_regs = (\<lambda>_. 0), vram = (\<lambda>_. 0), spram = (\<lambda>_. 0), ticks = 0, render_ready = False\<rparr>))
     = 22036 \<and>
   ticks ((ppu_tick ^^ 106392)
      \<lparr>ppu_regs = (\<lambda>_. 0), vram = (\<lambda>_. 0), spram = (\<lambda>_. 0), ticks = 0, render_ready = False\<rparr>)
     = 0 \<and>
   ppu_is_vblank
      \<lparr>ppu_regs = (\<lambda>_. 0), vram = (\<lambda>_. 0), spram = (\<lambda>_. 0), ticks = 22035, render_ready = False\<rparr> \<and>
   \<not> ppu_is_vblank
      \<lparr>ppu_regs = (\<lambda>_. 0), vram = (\<lambda>_. 0), spram = (\<lambda>_. 0), ticks = 22036, render_ready = False\<rparr>"
proof -
  let ?s = "\<lparr>ppu_regs = (\<lambda>_. 0), vram = (\<lambda>_. 0), spram = (\<lambda>_. 0), ticks = 0, render_ready = False\<rparr>"
  have z: "ticks ?s = 0" by simp
  note t = frame_clock[OF z]
  have a: "unat (ticks ((ppu_tick ^^ 22036) ?s)) = 22036"
    using t[THEN conjunct1, rule_format, of 22036] by simp
  have b: "ticks ((ppu_tick ^^ 106392) ?s) = 0"
    using t by blast
  have v: "\<And>t. ppu_is_vblank t \<longleftrightarrow> unat (ticks t) < 22036"
    using t by simp
  show ?thesis
    using a b unfolding v by simp
qed

text \<open>
  Claim C10. For every state the windowed ports index in bounds: the SPRAM address is
  built from register \<open>0x02\<close> masked with \<open>0x07\<close> and register \<open>0x03\<close> and is below
  2048, the VRAM address from register \<open>0x06\<close> masked with \<open>0x1F\<close> and register
  \<open>0x05\<close> and is below 8192; reads and writes of the data ports \<open>0x04\<close> and \<open>0x07\<close>
  access exactly that index and never take the out-of-bounds branch.
\<close>

theorem window_ports_in_bounds:
  "spram_size = 2048 \<and> vram_size = 8192 \<and>
   unat (spram_addr s) = 256 * unat (ppu_regs s 0x02 AND 0x07) + unat (ppu_regs s 0x03) \<and>
   unat (vram_addr s) = 256 * unat (ppu_regs s 0x06 AND 0x1F) + unat (ppu_regs s 0x05) \<and>
   unat (spram_addr s) < spram_size \<and> unat (vram_addr s) < vram_size \<and>
   ppu_read 0x04 s = Inr (spram s (unat (spram_addr s))) \<and>
   ppu_read 0x07 s = Inr (vram s (unat (vram_addr s))) \<and>
   (\<exists>s'. ppu_write 0x04 d s = Inr s' \<and> spram s' = (spram s)(unat (spram_addr s) := d) \<and>
         vram s' = vram s) \<and>
   (\<exists>s'. ppu_write 0x07 d s = Inr s' \<and> vram s' = (vram s)(unat (vram_addr s) := d) \<and>
         spram s' = spram s)"
proof -
  obtain s1 where w1: "ppu_write reg_spram_data d s = Inr s1"
    using ppu_write_spram_ex by blast
  obtain s2 where w2: "ppu_write reg_vram_data d s = Inr s2"
    using ppu_write_vram_ex by blast
  have a1: "unat (spram_addr s) = 256 * unat (ppu_regs s 0x02 AND 0x07) + unat (ppu_regs s 0x03)"
    unfolding unat_spram_addr unat_and_07_u8 by (simp add: reg_defs)
  have a2: "unat (vram_addr s) = 256 * unat (ppu_regs s 0x06 AND 0x1F) + unat (ppu_regs s 0x05)"
    unfolding unat_vram_addr unat_and_1F_u8 by (simp add: reg_defs)
  have r1: "ppu_read 0x04 s = Inr (spram s (unat (spram_addr s)))"
    using ppu_read_spram[of s] by (simp add: reg_defs)
  have r2: "ppu_read 0x07 s = Inr (vram s (unat (vram_addr s)))"
    using ppu_read_vram[of s] by (simp add: reg_defs)
  have e1: "\<exists>s'. ppu_write 0x04 d s = Inr s' \<and> spram s' = (spram s)(unat (spram_addr s) := d) \<and>
         vram s' = vram s"
    using w1 spram_write_effect(1,2)[OF w1] by (auto simp: reg_defs)
  have e2: "\<exists>s'. ppu_write 0x07 d s = Inr s' \<and> vram s' = (vram s)(unat (vram_addr s) := d) \<and>
         spram s' = spram s"
    using w2 vram_write_fields(1,2)[OF w2] by (auto simp: reg_defs)
  show ?thesis
    using a1 a2 r1 r2 e1 e2 spram_addr_less[of s] vram_addr_less[of s]
    by (simp add: spram_size_def vram_size_def)
qed

end
